theory Spec2Isabelle
  imports Main "HOL-Library.AList" "HOL-Library.Multiset"
begin

section \<open>TSQL: data model\<close>

text \<open>
  The query module \<^verbatim>\<open>delphin/tsql.py\<close> works on a database that offers a schema (an
  ordered mapping from relation names to fields) and the rows of each relation.
  Python dictionaries keep insertion order, and the planner depends on it, so every
  dictionary is an association list here: \<open>map_of\<close> is the lookup,
  \<open>AList.update\<close> the assignment \<^verbatim>\<open>d[k] = v\<close> (in place for an existing key, at
  the end for a new one) and \<open>AList.delete\<close> the removal.
\<close>

datatype error =
    TSQLError string
  | TSQLSyntaxError string
  | KeyError string
  | IndexError
  | TypeError
  | ValueError

datatype tsdb_value = VInt int | VStr string | VDate int | VNone

record field =
  name :: string
  dtype :: string
  is_key :: bool

type_synonym fields = "field list"
type_synonym record_row = "tsdb_value list"

record database =
  schema :: "(string \<times> fields) list"
  tables :: "(string \<times> record_row list) list"

section \<open>Schema resolver\<close>

text \<open>\<^verbatim>\<open>schema_map.setdefault(k, []).append(v)\<close> on an insertion-ordered dictionary.\<close>

fun setdefault_append :: "'k \<Rightarrow> 'v \<Rightarrow> ('k \<times> 'v list) list \<Rightarrow> ('k \<times> 'v list) list" where
  "setdefault_append k v [] = [(k, [v])]"
| "setdefault_append k v ((k', vs) # d) =
     (if k' = k then (k', vs @ [v]) # d else (k', vs) # setdefault_append k v d)"

text \<open>
  \<^verbatim>\<open>sorted(xs, key=relations.__contains__, reverse=True)\<close>: the key is a boolean, the
  sort is stable also when reversed, so the members of \<open>relations\<close> come first and
  each group keeps its order.
\<close>

definition sorted_contains_reverse :: "string list \<Rightarrow> string list \<Rightarrow> string list" where
  "sorted_contains_reverse relations xs =
     filter (\<lambda>x. x \<in> set relations) xs @ filter (\<lambda>x. x \<notin> set relations) xs"

definition make_schema_map :: "database \<Rightarrow> string list \<Rightarrow> (string \<times> string list) list" where
  "make_schema_map db relations =
     (let schema_map =
            fold (\<lambda>(relname, fs) m. fold (\<lambda>f. setdefault_append (name f) relname) fs m)
                 (schema db) []
      in map (\<lambda>(colname, rels). (colname, sorted_contains_reverse relations rels)) schema_map)"

text \<open>
  \<^verbatim>\<open>s.rpartition(c)\<close> without the separator: the part before the last \<open>c\<close> and the
  part after it, or the empty string and \<open>s\<close> when \<open>c\<close> does not occur.
\<close>

definition rpartition :: "char \<Rightarrow> string \<Rightarrow> string \<times> string" where
  "rpartition c s =
     (if c \<in> set s
      then (rev (tl (dropWhile (\<lambda>x. x \<noteq> c) (rev s))), rev (takeWhile (\<lambda>x. x \<noteq> c) (rev s)))
      else ([], s))"

definition qualify :: "string \<Rightarrow> string \<Rightarrow> string" where
  "qualify rel col = rel @ ''.'' @ col"

text \<open>The closure \<^verbatim>\<open>resolve\<close> returned by \<^verbatim>\<open>_make_qname_resolver(schema_map)\<close>.\<close>

definition resolve :: "(string \<times> string list) list \<Rightarrow> string \<Rightarrow> error + string" where
  "resolve schema_map colname =
     (case rpartition CHR ''.'' colname of (rel, col) \<Rightarrow>
        if rel \<noteq> [] then Inr colname
        else (case map_of schema_map col of
                Some rels \<Rightarrow>
                  (case rels of [] \<Rightarrow> Inl IndexError | r # _ \<Rightarrow> Inr (qualify r col))
              | None \<Rightarrow> Inl (TSQLError (''undefined column: '' @ colname))))"

text \<open>
  The candidate relations of a bare column name, following the description of the
  resolver: the relations of the schema that contain a field of that name, in schema
  order (once for every such field). It is the yardstick for \<open>make_schema_map\<close>.
\<close>

definition candidates :: "(string \<times> fields) list \<Rightarrow> string \<Rightarrow> string list" where
  "candidates sch c = concat (map (\<lambda>(r, fs). map (\<lambda>_. r) (filter (\<lambda>f. name f = c) fs)) sch)"

definition getl :: "('k \<times> 'v list) list \<Rightarrow> 'k \<Rightarrow> 'v list" where
  "getl d k = (case map_of d k of None \<Rightarrow> [] | Some vs \<Rightarrow> vs)"

section \<open>Lexer interface\<close>

text \<open>
  The token types of \<^verbatim>\<open>_TSQLLexer\<close>, in the order of its rule table. A token is a
  pair of its type and its text.
\<close>

datatype tokentype =
    T_FROM | T_WHERE | T_REPORT | T_STAR | T_DOT | T_OP | T_AND | T_OR | T_NOT
  | T_LPAREN | T_RPAREN | T_DQSTRING | T_SQSTRING | T_YYYYMMDD | T_DDMMYY | T_KWDATE
  | T_INT | T_QID | T_ID | T_UNEXPECTED

type_synonym token = "tokentype \<times> string"

text \<open>
  Modelled from the spec: the class \<^verbatim>\<open>util.Lexer\<close> is not part of the sources at hand.
  The lexer turns the query string into a sequence of (type, text) pairs and offers three
  lookahead operations on it: "accept" (consume the next token if its type matches,
  else do nothing), "expect" (consume it or fail with a syntax error that carries the
  offending text) and "choice" (expect one of several types). The state of the lexer is
  the list of the tokens not yet consumed. The texts of keyword, operator and identifier
  tokens are never empty, since their patterns match at least one character, so a
  returned text is always true as a Python condition: \<open>Some\<close> stands for a true result
  of "accept" and \<open>None\<close> for Python's \<^verbatim>\<open>None\<close>. A missing token (the end of the
  input) is a syntax error for "expect" and "choice".
\<close>

definition accept_type :: "tokentype \<Rightarrow> token list \<Rightarrow> string option \<times> token list" where
  "accept_type ty toks =
     (case toks of
        [] \<Rightarrow> (None, [])
      | (t, v) # rest \<Rightarrow> if t = ty then (Some v, rest) else (None, toks))"

definition expect_type :: "tokentype \<Rightarrow> token list \<Rightarrow> error + (string \<times> token list)" where
  "expect_type ty toks =
     (case toks of
        [] \<Rightarrow> Inl (TSQLSyntaxError ''unexpected end of input'')
      | (t, v) # rest \<Rightarrow>
          if t = ty then Inr (v, rest) else Inl (TSQLSyntaxError (''unexpected: '' @ v)))"

definition choice_type :: "tokentype list \<Rightarrow> token list \<Rightarrow> error + (token \<times> token list)" where
  "choice_type choices toks =
     (case toks of
        [] \<Rightarrow> Inl (TSQLSyntaxError ''unexpected end of input'')
      | (t, v) # rest \<Rightarrow>
          if t \<in> set choices then Inr ((t, v), rest)
          else Inl (TSQLSyntaxError (''unexpected: '' @ v)))"

section \<open>Query parser\<close>

text \<open>
  The condition of a query. Python builds the tuples \<^verbatim>\<open>(op, (column, value))\<close>,
  \<^verbatim>\<open>('and', [c, ...])\<close>, \<^verbatim>\<open>('or', [c, ...])\<close> and \<^verbatim>\<open>('not', c)\<close>.
\<close>

datatype condition =
    Comparison string string tsdb_value
  | Boolean string "condition list"
  | Negation condition

record query =
  q_type :: string
  q_projection :: "string list"
  q_relations :: "string list"
  q_condition :: "condition option"

text \<open>
  \<^verbatim>\<open>int(value)\<close> on the text of an \<^verbatim>\<open>INT\<close> token, which matches \<^verbatim>\<open>[+-]?\d+\<close>: an
  optional sign and decimal digits. Any other text is a \<^verbatim>\<open>ValueError\<close>.
\<close>

definition is_digit :: "char \<Rightarrow> bool" where
  "is_digit c \<longleftrightarrow> 48 \<le> (of_char c :: nat) \<and> (of_char c :: nat) \<le> 57"

definition digits_value :: "string \<Rightarrow> nat" where
  "digits_value ds = foldl (\<lambda>acc c. 10 * acc + (of_char c - 48)) 0 ds"

definition is_int_literal :: "string \<Rightarrow> bool" where
  "is_int_literal s =
     (case s of
        [] \<Rightarrow> False
      | c # ds \<Rightarrow>
          if c = CHR ''+'' \<or> c = CHR ''-'' then ds \<noteq> [] \<and> list_all is_digit ds
          else list_all is_digit s)"

definition py_int :: "string \<Rightarrow> error + int" where
  "py_int s =
     (if \<not> is_int_literal s then Inl ValueError
      else if hd s = CHR ''-'' then Inr (- int (digits_value (tl s)))
      else if hd s = CHR ''+'' then Inr (int (digits_value (tl s)))
      else Inr (int (digits_value s)))"

text \<open>
  \<^verbatim>\<open>_parse_condition_statement(column, lexer)\<close>. The date conversion
  \<^verbatim>\<open>tsdb.cast(':date', value)\<close> belongs to a module that is not part of the sources at
  hand; it is the parameter \<open>cast\<close>, a function from the datatype tag and the text to
  a value.
\<close>

definition parse_condition_statement ::
  "(string \<Rightarrow> string \<Rightarrow> tsdb_value) \<Rightarrow> string \<Rightarrow> token list
     \<Rightarrow> error + (condition \<times> token list)" where
  "parse_condition_statement cast column toks =
     (case expect_type T_OP toks of
        Inl e \<Rightarrow> Inl e
      | Inr (op0, toks1) \<Rightarrow>
          let op = (if op0 = ''='' then ''=='' else op0) in
          (case (if op \<in> {''~'', ''!~''} then
                   choice_type [T_DQSTRING, T_SQSTRING] toks1
                 else if op \<in> {''<'', ''<='', ''>'', ''>=''} then
                   choice_type [T_INT, T_YYYYMMDD, T_DDMMYY, T_KWDATE] toks1
                 else
                   choice_type [T_INT, T_DQSTRING, T_SQSTRING,
                                T_YYYYMMDD, T_DDMMYY, T_KWDATE] toks1) of
             Inl e \<Rightarrow> Inl e
           | Inr ((typ, val), toks2) \<Rightarrow>
               if typ = T_INT then
                 (case py_int val of
                    Inl e \<Rightarrow> Inl e
                  | Inr i \<Rightarrow> Inr (Comparison op column (VInt i), toks2))
               else if typ \<in> {T_YYYYMMDD, T_DDMMYY, T_KWDATE} then
                 Inr (Comparison op column (cast '':date'' val), toks2)
               else Inr (Comparison op column (VStr val), toks2)))"

text \<open>
  The tail shared by \<^verbatim>\<open>_parse_condition_disjunction\<close> and
  \<^verbatim>\<open>_parse_condition_conjunction\<close>: no condition is an error, a single condition is
  returned as it is, several conditions become one node.
\<close>

definition make_boolean :: "string \<Rightarrow> condition list \<Rightarrow> error + condition" where
  "make_boolean op conds =
     (case conds of
        [] \<Rightarrow> Inl (TSQLSyntaxError ''invalid query'')
      | [c] \<Rightarrow> Inr c
      | _ \<Rightarrow> Inr (Boolean op conds))"

text \<open>
  The two mutually recursive parsers of conditions. Each \<^verbatim>\<open>while True\<close> loop is a
  function of its own with the list \<^verbatim>\<open>conds\<close> as accumulator. The recursion is
  bounded by fuel: every call uses one unit, and \<open>None\<close> means that the fuel ran out.
  A result \<open>Some (Inl e)\<close> is the exception \<open>e\<close>, a result \<open>Some (Inr (c, toks))\<close>
  the condition \<open>c\<close> and the tokens left in the lexer.
\<close>

type_synonym 'a parse = "(error + ('a \<times> token list)) option"

function parse_condition_disjunction ::
      "(string \<Rightarrow> string \<Rightarrow> tsdb_value) \<Rightarrow> nat \<Rightarrow> token list \<Rightarrow> condition parse"
  and disjunction_loop ::
      "(string \<Rightarrow> string \<Rightarrow> tsdb_value) \<Rightarrow> nat \<Rightarrow> condition list \<Rightarrow> token list
         \<Rightarrow> condition parse"
  and parse_condition_conjunction ::
      "(string \<Rightarrow> string \<Rightarrow> tsdb_value) \<Rightarrow> nat \<Rightarrow> token list \<Rightarrow> condition parse"
  and conjunction_loop ::
      "(string \<Rightarrow> string \<Rightarrow> tsdb_value) \<Rightarrow> nat \<Rightarrow> condition list \<Rightarrow> token list
         \<Rightarrow> condition parse"
where
  "parse_condition_disjunction cast 0 toks = None"
| "parse_condition_disjunction cast (Suc n) toks = disjunction_loop cast n [] toks"
| "disjunction_loop cast 0 conds toks = None"
| "disjunction_loop cast (Suc n) conds toks =
     (case parse_condition_conjunction cast n toks of
        None \<Rightarrow> None
      | Some (Inl e) \<Rightarrow> Some (Inl e)
      | Some (Inr (c, toks1)) \<Rightarrow>
          (case accept_type T_OR toks1 of
             (Some _, toks2) \<Rightarrow> disjunction_loop cast n (conds @ [c]) toks2
           | (None, toks2) \<Rightarrow>
               (case make_boolean ''or'' (conds @ [c]) of
                  Inl e \<Rightarrow> Some (Inl e)
                | Inr r \<Rightarrow> Some (Inr (r, toks2)))))"
| "parse_condition_conjunction cast 0 toks = None"
| "parse_condition_conjunction cast (Suc n) toks = conjunction_loop cast n [] toks"
| "conjunction_loop cast 0 conds toks = None"
| "conjunction_loop cast (Suc n) conds toks =
     (case choice_type [T_NOT, T_LPAREN, T_QID, T_ID] toks of
        Inl e \<Rightarrow> Some (Inl e)
      | Inr ((typ, token), toks1) \<Rightarrow>
          (case (if typ = T_NOT then
                   (case parse_condition_disjunction cast n toks1 of
                      None \<Rightarrow> None
                    | Some (Inl e) \<Rightarrow> Some (Inl e)
                    | Some (Inr (c, toks2)) \<Rightarrow> Some (Inr (Negation c, toks2)))
                 else if typ = T_LPAREN then
                   (case parse_condition_disjunction cast n toks1 of
                      None \<Rightarrow> None
                    | Some (Inl e) \<Rightarrow> Some (Inl e)
                    | Some (Inr (c, toks2)) \<Rightarrow>
                        (case expect_type T_RPAREN toks2 of
                           Inl e \<Rightarrow> Some (Inl e)
                         | Inr (_, toks3) \<Rightarrow> Some (Inr (c, toks3))))
                 else Some (parse_condition_statement cast token toks1)) of
             None \<Rightarrow> None
           | Some (Inl e) \<Rightarrow> Some (Inl e)
           | Some (Inr (c, toks4)) \<Rightarrow>
               (case accept_type T_AND toks4 of
                  (Some _, toks5) \<Rightarrow> conjunction_loop cast n (conds @ [c]) toks5
                | (None, toks5) \<Rightarrow>
                    (case make_boolean ''and'' (conds @ [c]) of
                       Inl e \<Rightarrow> Some (Inl e)
                     | Inr r \<Rightarrow> Some (Inr (r, toks5))))))"
  by pat_completeness auto

termination
  by (relation "measure (\<lambda>x. case x of
          Inl (Inl a) \<Rightarrow> fst (snd a) | Inl (Inr a) \<Rightarrow> fst (snd a)
        | Inr (Inl a) \<Rightarrow> fst (snd a) | Inr (Inr a) \<Rightarrow> fst (snd a))") simp_all

text \<open>\<^verbatim>\<open>_parse_select_where\<close>: the loop over the where clauses, then the result.\<close>

fun where_loop ::
  "(string \<Rightarrow> string \<Rightarrow> tsdb_value) \<Rightarrow> nat \<Rightarrow> condition list \<Rightarrow> token list
     \<Rightarrow> (condition list) parse" where
  "where_loop cast 0 conditions toks = None"
| "where_loop cast (Suc n) conditions toks =
     (case accept_type T_WHERE toks of
        (Some _, toks1) \<Rightarrow>
          (case parse_condition_disjunction cast n toks1 of
             None \<Rightarrow> None
           | Some (Inl e) \<Rightarrow> Some (Inl e)
           | Some (Inr (c, toks2)) \<Rightarrow> where_loop cast n (conditions @ [c]) toks2)
      | (None, toks1) \<Rightarrow> Some (Inr (conditions, toks1)))"

definition parse_select_where ::
  "(string \<Rightarrow> string \<Rightarrow> tsdb_value) \<Rightarrow> nat \<Rightarrow> token list \<Rightarrow> (condition option) parse" where
  "parse_select_where cast n toks =
     (case where_loop cast n [] toks of
        None \<Rightarrow> None
      | Some (Inl e) \<Rightarrow> Some (Inl e)
      | Some (Inr (conditions, toks1)) \<Rightarrow>
          Some (Inr ((case conditions of
                        [] \<Rightarrow> None
                      | [c] \<Rightarrow> Some c
                      | _ \<Rightarrow> Some (Boolean ''and'' conditions)), toks1)))"

text \<open>
  \<^verbatim>\<open>_parse_select_projection\<close> and \<^verbatim>\<open>_parse_select_from\<close>. Their loops consume one
  token in every round, so they are recursive on the token list:
  \<^verbatim>\<open>lexer.accept_type(_QID) or lexer.accept_type(_ID)\<close> takes the next token when its
  type is one of the two.
\<close>

fun projection_loop :: "token list \<Rightarrow> string list \<times> token list" where
  "projection_loop [] = ([], [])"
| "projection_loop ((t, v) # rest) =
     (if t = T_QID \<or> t = T_ID
      then (case projection_loop rest of (cols, rest') \<Rightarrow> (v # cols, rest'))
      else ([], (t, v) # rest))"

definition parse_select_projection :: "token list \<Rightarrow> error + (string list \<times> token list)" where
  "parse_select_projection toks =
     (case choice_type [T_STAR, T_QID, T_ID] toks of
        Inl e \<Rightarrow> Inl e
      | Inr ((typ, col_id), toks1) \<Rightarrow>
          if typ = T_QID \<or> typ = T_ID
          then (case projection_loop toks1 of (cols, toks2) \<Rightarrow> Inr (col_id # cols, toks2))
          else Inr ([col_id], toks1))"

fun from_loop :: "token list \<Rightarrow> string list \<times> token list" where
  "from_loop [] = ([], [])"
| "from_loop ((t, v) # rest) =
     (if t = T_ID
      then (case from_loop rest of (rels, rest') \<Rightarrow> (v # rels, rest'))
      else ([], (t, v) # rest))"

definition parse_select_from :: "token list \<Rightarrow> error + (string list \<times> token list)" where
  "parse_select_from toks =
     (case accept_type T_FROM toks of
        (Some _, toks1) \<Rightarrow>
          (case expect_type T_ID toks1 of
             Inl e \<Rightarrow> Inl e
           | Inr (relation, toks2) \<Rightarrow>
               (case from_loop toks2 of (rels, toks3) \<Rightarrow> Inr (relation # rels, toks3)))
      | (None, toks1) \<Rightarrow> Inr ([], toks1))"

text \<open>
  \<^verbatim>\<open>_parse_select\<close>, on the tokens of the query string with the sentinel \<^verbatim>\<open>.\<close>
  appended. The where clauses are parsed with fuel that grows with the number of tokens.
\<close>

definition star_requires_from :: string where
  "star_requires_from = ''select * requires a from clause''"

definition parse_select ::
  "(string \<Rightarrow> string \<Rightarrow> tsdb_value) \<Rightarrow> token list \<Rightarrow> (error + query) option" where
  "parse_select cast toks =
     (case parse_select_projection toks of
        Inl e \<Rightarrow> Some (Inl e)
      | Inr (projection, toks1) \<Rightarrow>
          (case parse_select_from toks1 of
             Inl e \<Rightarrow> Some (Inl e)
           | Inr (relations, toks2) \<Rightarrow>
               (case parse_select_where cast (4 * length toks2 + 5) toks2 of
                  None \<Rightarrow> None
                | Some (Inl e) \<Rightarrow> Some (Inl e)
                | Some (Inr (condition, toks3)) \<Rightarrow>
                    (case expect_type T_DOT toks3 of
                       Inl e \<Rightarrow> Some (Inl e)
                     | Inr (_, toks4) \<Rightarrow>
                         if projection = [''*''] \<and> relations = []
                         then Some (Inl (TSQLSyntaxError star_requires_from))
                         else Some (Inr \<lparr>q_type = ''select'', q_projection = projection,
                                          q_relations = relations,
                                          q_condition = condition\<rparr>)))))"

section \<open>Auxiliary notions for the parser\<close>

text \<open>
  The notions below are not part of the program; the statements about the parser are
  phrased with them. \<open>proper_suffix rest toks\<close> says that a parser which started on
  \<open>toks\<close> and left \<open>rest\<close> has consumed at least one token. \<open>literal_types\<close> is the
  table of the module's documentation: the literal token types each comparison operator
  takes, and \<open>literal_value\<close> the value of a literal token. \<open>conjunction_item\<close> and
  \<open>finish_loop\<close> name the two halves of a round of the loops of the condition parsers.
  \<open>wf_tokens\<close> holds for the token sequences the lexer produces, where the text of an
  \<^verbatim>\<open>INT\<close> token is an integer literal.
\<close>

definition proper_suffix :: "'a list \<Rightarrow> 'a list \<Rightarrow> bool" where
  "proper_suffix rest toks \<longleftrightarrow> (\<exists>pre. pre \<noteq> [] \<and> toks = pre @ rest)"

definition date_types :: "tokentype list" where
  "date_types = [T_YYYYMMDD, T_DDMMYY, T_KWDATE]"

definition literal_types :: "string \<Rightarrow> tokentype list" where
  "literal_types op =
     (if op \<in> {''~'', ''!~''} then [T_DQSTRING, T_SQSTRING]
      else if op \<in> {''<'', ''<='', ''>'', ''>=''} then T_INT # date_types
      else [T_INT, T_DQSTRING, T_SQSTRING] @ date_types)"

definition literal_value ::
  "(string \<Rightarrow> string \<Rightarrow> tsdb_value) \<Rightarrow> tokentype \<Rightarrow> string \<Rightarrow> error + tsdb_value" where
  "literal_value cast typ val =
     (if typ = T_INT then map_sum id VInt (py_int val)
      else if typ \<in> set date_types then Inr (cast '':date'' val)
      else Inr (VStr val))"

definition conjunction_item ::
  "(string \<Rightarrow> string \<Rightarrow> tsdb_value) \<Rightarrow> nat \<Rightarrow> tokentype \<Rightarrow> string \<Rightarrow> token list
     \<Rightarrow> condition parse" where
  "conjunction_item cast n ty token toks1 =
     (if ty = T_NOT then
        (case parse_condition_disjunction cast n toks1 of
           None \<Rightarrow> None
         | Some (Inl e) \<Rightarrow> Some (Inl e)
         | Some (Inr (c, toks2)) \<Rightarrow> Some (Inr (Negation c, toks2)))
      else if ty = T_LPAREN then
        (case parse_condition_disjunction cast n toks1 of
           None \<Rightarrow> None
         | Some (Inl e) \<Rightarrow> Some (Inl e)
         | Some (Inr (c, toks2)) \<Rightarrow>
             (case expect_type T_RPAREN toks2 of
                Inl e \<Rightarrow> Some (Inl e)
              | Inr (_, toks3) \<Rightarrow> Some (Inr (c, toks3))))
      else Some (parse_condition_statement cast token toks1))"

definition finish_loop :: "string \<Rightarrow> condition list \<Rightarrow> token list \<Rightarrow> condition parse" where
  "finish_loop op conds toks =
     (case make_boolean op conds of Inl e \<Rightarrow> Some (Inl e) | Inr r \<Rightarrow> Some (Inr (r, toks)))"

definition wf_tokens :: "token list \<Rightarrow> bool" where
  "wf_tokens toks = list_all (\<lambda>(t, v). t = T_INT \<longrightarrow> is_int_literal v) toks"

definition is_syntax_error :: "error \<Rightarrow> bool" where
  "is_syntax_error e = (case e of TSQLSyntaxError _ \<Rightarrow> True | _ \<Rightarrow> False)"

text \<open>
  The tokens of the two queries
  \<^verbatim>\<open>select i-id from item where i-id = 10 or i-id = 20 and i-input ~ "[Dd]og"\<close> and
  \<^verbatim>\<open>select i-id from item where i-id = 10 or (i-id = 20 and i-input ~ "[Dd]og")\<close>,
  after the leading \<^verbatim>\<open>select\<close> and with the sentinel at the end.
\<close>

definition precedence_plain :: "token list" where
  "precedence_plain =
     [(T_ID, ''i-id''), (T_FROM, ''from''), (T_ID, ''item''), (T_WHERE, ''where''),
      (T_ID, ''i-id''), (T_OP, ''=''), (T_INT, ''10''), (T_OR, ''or''),
      (T_ID, ''i-id''), (T_OP, ''=''), (T_INT, ''20''), (T_AND, ''and''),
      (T_ID, ''i-input''), (T_OP, ''~''), (T_DQSTRING, ''[Dd]og''), (T_DOT, ''.'')]"

definition precedence_parens :: "token list" where
  "precedence_parens =
     [(T_ID, ''i-id''), (T_FROM, ''from''), (T_ID, ''item''), (T_WHERE, ''where''),
      (T_ID, ''i-id''), (T_OP, ''=''), (T_INT, ''10''), (T_OR, ''or''), (T_LPAREN, ''(''),
      (T_ID, ''i-id''), (T_OP, ''=''), (T_INT, ''20''), (T_AND, ''and''),
      (T_ID, ''i-input''), (T_OP, ''~''), (T_DQSTRING, ''[Dd]og''), (T_RPAREN, '')''),
      (T_DOT, ''.'')]"

section \<open>Join planner\<close>

text \<open>
  Python sets are lists without duplicates here; \<open>List.insert\<close> is \<^verbatim>\<open>s.add(x)\<close>. Python
  does not fix the order in which it iterates a set of strings, and the planner iterates
  the set \<^verbatim>\<open>relset\<close> twice. The order is the parameter \<open>set_order\<close> of the planner: a
  function that rearranges the elements of a set. The statements about the planner hold
  for every such function.
\<close>

definition set_update :: "'a list \<Rightarrow> 'a list \<Rightarrow> 'a list" where
  "set_update s xs = fold List.insert xs s"

text \<open>\<^verbatim>\<open>sorted(xs)\<close> on strings, which Python compares by code point, and \<^verbatim>\<open>sep.join(xs)\<close>.\<close>

fun str_less :: "string \<Rightarrow> string \<Rightarrow> bool" where
  "str_less [] [] = False"
| "str_less [] (y # ys) = True"
| "str_less (x # xs) [] = False"
| "str_less (x # xs) (y # ys) =
     ((of_char x :: nat) < of_char y \<or> (x = y \<and> str_less xs ys))"

fun insort_str :: "string \<Rightarrow> string list \<Rightarrow> string list" where
  "insort_str x [] = [x]"
| "insort_str x (y # ys) = (if str_less y x then y # insort_str x ys else x # y # ys)"

definition py_sorted :: "string list \<Rightarrow> string list" where
  "py_sorted xs = foldr insort_str xs []"

fun join_strings :: "string \<Rightarrow> string list \<Rightarrow> string" where
  "join_strings sep [] = []"
| "join_strings sep [x] = x"
| "join_strings sep (x # y # ys) = x @ sep @ join_strings sep (y # ys)"

text \<open>\<^verbatim>\<open>_make_keymap(db)\<close>: the names of the key fields of every relation.\<close>

definition make_keymap :: "database \<Rightarrow> (string \<times> string list) list" where
  "make_keymap db =
     fold (\<lambda>(rel, fs) keymap. AList.update rel (map name (filter is_key fs)) keymap)
          (schema db) []"

text \<open>
  Modelled from the spec: \<^verbatim>\<open>util._connected_components(nodes, edges)\<close> is not among the
  sources at hand. The planner models the key columns of a relation as a clique of
  edges between the key names, and the function returns the connected components of this
  graph of key names. Every node starts as a component of its own, and every edge merges
  the components of its two ends.
\<close>

definition merge_components :: "'a \<Rightarrow> 'a \<Rightarrow> 'a list list \<Rightarrow> 'a list list" where
  "merge_components u v comps =
     (let hit = filter (\<lambda>c. u \<in> set c \<or> v \<in> set c) comps;
          miss = filter (\<lambda>c. \<not> (u \<in> set c \<or> v \<in> set c)) comps
      in if hit = [] then miss else concat hit # miss)"

definition connected_components :: "'a list \<Rightarrow> ('a \<times> 'a) list \<Rightarrow> 'a list list" where
  "connected_components nodes edges =
     fold (\<lambda>(u, v). merge_components u v) edges (map (\<lambda>n. [n]) (remdups nodes))"

text \<open>The local function \<^verbatim>\<open>add_edges(keys)\<close>: the pairs it appends to \<^verbatim>\<open>edges\<close>.\<close>

fun add_edges :: "'a list \<Rightarrow> ('a \<times> 'a) list" where
  "add_edges [] = []"
| "add_edges (k # ks) = map (Pair k) ks @ add_edges ks"

text \<open>
  \<^verbatim>\<open>_pivot_relations(relset, keymap, db)\<close>. The first loop collects the nodes and edges
  of the relations of \<^verbatim>\<open>relset\<close>; a relation that is not in the keymap is a
  \<^verbatim>\<open>KeyError\<close>. The while loop is bounded by fuel: one unit for every round, \<open>None\<close>
  when the fuel runs out.
\<close>

definition graph_step ::
  "(string \<times> string list) list \<Rightarrow> string \<Rightarrow> error + (string list \<times> (string \<times> string) list)
     \<Rightarrow> error + (string list \<times> (string \<times> string) list)" where
  "graph_step keymap rel acc =
     (case acc of
        Inl e \<Rightarrow> Inl e
      | Inr (nodes, edges) \<Rightarrow>
          (case map_of keymap rel of
             None \<Rightarrow> Inl (KeyError rel)
           | Some keys \<Rightarrow> Inr (set_update nodes keys, edges @ add_edges keys)))"

definition bridges :: "string list \<Rightarrow> string list list \<Rightarrow> bool" where
  "bridges keys components \<longleftrightarrow>
     length (filter (\<lambda>c. \<exists>k \<in> set keys. k \<in> set c) components) > 1"

fun pivot_loop ::
  "nat \<Rightarrow> (string \<times> string list) list \<Rightarrow> string list \<Rightarrow> string list
     \<Rightarrow> (string \<times> string) list \<Rightarrow> string list \<Rightarrow> string list list
     \<Rightarrow> (error + string list) option" where
  "pivot_loop 0 keymap relset nodes edges pivots components =
     (if length components > 1 then None else Some (Inr pivots))"
| "pivot_loop (Suc n) keymap relset nodes edges pivots components =
     (if length components > 1 then
        (case find (\<lambda>(rel, keys). rel \<notin> set relset \<union> set pivots \<and> length keys > 1
                                  \<and> bridges keys components) keymap of
           None \<Rightarrow>
             Some (Inl (TSQLError (''could not find relation to join: ''
                                     @ join_strings '', '' (py_sorted relset))))
         | Some (rel, keys) \<Rightarrow>
             pivot_loop n keymap relset (set_update nodes keys) (edges @ add_edges keys)
               (List.insert rel pivots)
               (connected_components (set_update nodes keys) (edges @ add_edges keys)))
      else Some (Inr pivots))"

definition pivot_relations ::
  "(string list \<Rightarrow> string list) \<Rightarrow> string list \<Rightarrow> (string \<times> string list) list
     \<Rightarrow> (error + string list) option" where
  "pivot_relations set_order relset keymap =
     (case fold (graph_step keymap) (set_order relset) (Inr ([], [])) of
        Inl e \<Rightarrow> Some (Inl e)
      | Inr (nodes, edges) \<Rightarrow>
          pivot_loop (length keymap + 1) keymap relset nodes edges []
            (connected_components nodes edges))"

text \<open>
  \<^verbatim>\<open>_plan_joins(projection, condition_fields, relations, db)\<close>. The state of the first
  loop is the triple of \<^verbatim>\<open>joinmap\<close>, \<^verbatim>\<open>added\<close> and \<^verbatim>\<open>relset\<close>. The while loop that
  orders the joins is bounded by fuel as well: one unit for every round, and the planner
  gives it as many units as the schema has relations.
\<close>

definition requested_step ::
  "string \<Rightarrow> (string \<times> string list) list \<times> string list \<times> string list
     \<Rightarrow> (string \<times> string list) list \<times> string list \<times> string list" where
  "requested_step qname st =
     (case st of (joinmap, added, relset) \<Rightarrow>
        if qname \<in> set added then st
        else (case rpartition CHR ''.'' qname of (rel, col) \<Rightarrow>
                (setdefault_append rel col joinmap, List.insert qname added,
                 List.insert rel relset)))"

definition add_keys ::
  "database \<Rightarrow> string list \<Rightarrow> string \<Rightarrow> error + (string \<times> string list) list
     \<Rightarrow> error + (string \<times> string list) list" where
  "add_keys db added relation acc =
     (case acc of
        Inl e \<Rightarrow> Inl e
      | Inr joinmap \<Rightarrow>
          (case map_of (schema db) relation of
             None \<Rightarrow> Inl (KeyError relation)
           | Some fs \<Rightarrow>
               Inr (fold (\<lambda>f jm. if is_key f \<and> qualify relation (name f) \<notin> set added
                                  then setdefault_append relation (name f) jm else jm)
                         fs joinmap)))"

definition joinable :: "(string \<times> string list) list \<Rightarrow> string list \<Rightarrow> string \<times> string list \<Rightarrow> bool" where
  "joinable joins joined_keys entry \<longleftrightarrow>
     joins = [] \<or> (\<exists>c \<in> set (snd entry). c \<in> set joined_keys)"

fun join_order_loop ::
  "nat \<Rightarrow> (string \<times> string list) list \<Rightarrow> (string \<times> string list) list \<Rightarrow> string list
     \<Rightarrow> (string \<times> string list) list \<Rightarrow> (error + (string \<times> string list) list) option" where
  "join_order_loop 0 keymap joinmap joined_keys joins =
     (if joinmap \<noteq> [] then None else Some (Inr joins))"
| "join_order_loop (Suc n) keymap joinmap joined_keys joins =
     (if joinmap \<noteq> [] then
        (case find (joinable joins joined_keys) joinmap of
           None \<Rightarrow> Some (Inl (TSQLError ''infinite loop detected!''))
         | Some (rel, cols) \<Rightarrow>
             (case map_of keymap rel of
                None \<Rightarrow> Some (Inl (KeyError rel))
              | Some keys \<Rightarrow>
                  join_order_loop n keymap (AList.delete rel joinmap)
                    (set_update joined_keys keys) (joins @ [(rel, cols)])))
      else Some (Inr joins))"

definition plan_joins ::
  "(string list \<Rightarrow> string list) \<Rightarrow> string list \<Rightarrow> string list \<Rightarrow> string list \<Rightarrow> database
     \<Rightarrow> (error + (string \<times> string list) list) option" where
  "plan_joins set_order projection condition_fields relations db =
     (case fold requested_step (projection @ condition_fields) ([], [], remdups relations) of
        (joinmap, added, relset) \<Rightarrow>
          let keymap = make_keymap db in
          (case pivot_relations set_order relset keymap of
             None \<Rightarrow> None
           | Some (Inl e) \<Rightarrow> Some (Inl e)
           | Some (Inr pivots) \<Rightarrow>
               let relset' = set_update relset pivots in
               (case fold (add_keys db added) (set_order relset') (Inr joinmap) of
                  Inl e \<Rightarrow> Some (Inl e)
                | Inr joinmap' \<Rightarrow>
                    join_order_loop (length (schema db)) keymap joinmap' [] [])))"

section \<open>Execution plan\<close>

text \<open>A list comprehension whose body can raise: the first exception ends it.\<close>

fun map_result :: "('a \<Rightarrow> error + 'b) \<Rightarrow> 'a list \<Rightarrow> error + 'b list" where
  "map_result f [] = Inr []"
| "map_result f (x # xs) =
     (case f x of
        Inl e \<Rightarrow> Inl e
      | Inr y \<Rightarrow> (case map_result f xs of Inl e \<Rightarrow> Inl e | Inr ys \<Rightarrow> Inr (y # ys)))"

text \<open>\<^verbatim>\<open>_project_all(relations, db)\<close>; its state is \<^verbatim>\<open>projection\<close> and \<^verbatim>\<open>keys_added\<close>.\<close>

definition project_field ::
  "string \<Rightarrow> field \<Rightarrow> string list \<times> string list \<Rightarrow> string list \<times> string list" where
  "project_field relname f st =
     (case st of (projection, keys_added) \<Rightarrow>
        if \<not> is_key f then (projection @ [qualify relname (name f)], keys_added)
        else if name f \<notin> set keys_added
          then (projection @ [qualify relname (name f)], List.insert (name f) keys_added)
        else st)"

definition project_relation ::
  "database \<Rightarrow> string \<Rightarrow> error + (string list \<times> string list)
     \<Rightarrow> error + (string list \<times> string list)" where
  "project_relation db relname acc =
     (case acc of
        Inl e \<Rightarrow> Inl e
      | Inr st \<Rightarrow>
          (case map_of (schema db) relname of
             None \<Rightarrow> Inl (KeyError relname)
           | Some fs \<Rightarrow> Inr (fold (project_field relname) fs st)))"

definition project_all :: "string list \<Rightarrow> database \<Rightarrow> error + string list" where
  "project_all relations db =
     (case fold (project_relation db) relations (Inr ([], [])) of
        Inl e \<Rightarrow> Inl e
      | Inr (projection, keys_added) \<Rightarrow> Inr projection)"

text \<open>
  \<^verbatim>\<open>_process_condition_fields(condition, resolve_qname)\<close>; the second function is its
  loop over the conditions of an \<^verbatim>\<open>and\<close> or \<^verbatim>\<open>or\<close> node, which returns the resolved
  conditions and the set of their fields.
\<close>

fun process_condition_fields ::
      "condition \<Rightarrow> (string \<Rightarrow> error + string) \<Rightarrow> error + (condition \<times> string list)"
  and process_body_fields ::
      "condition list \<Rightarrow> (string \<Rightarrow> error + string) \<Rightarrow> error + (condition list \<times> string list)"
where
  "process_condition_fields (Boolean op body) resolve_qname =
     (case process_body_fields body resolve_qname of
        Inl e \<Rightarrow> Inl e
      | Inr (conditions, fieldset) \<Rightarrow> Inr (Boolean op conditions, py_sorted fieldset))"
| "process_condition_fields (Negation body) resolve_qname =
     (case process_condition_fields body resolve_qname of
        Inl e \<Rightarrow> Inl e
      | Inr (ncond, fs) \<Rightarrow> Inr (Negation ncond, fs))"
| "process_condition_fields (Comparison op col v) resolve_qname =
     (case resolve_qname col of
        Inl e \<Rightarrow> Inl e
      | Inr qname \<Rightarrow> Inr (Comparison op qname v, [qname]))"
| "process_body_fields [] resolve_qname = Inr ([], [])"
| "process_body_fields (cond # body) resolve_qname =
     (case process_condition_fields cond resolve_qname of
        Inl e \<Rightarrow> Inl e
      | Inr (c, fs) \<Rightarrow>
          (case process_body_fields body resolve_qname of
             Inl e \<Rightarrow> Inl e
           | Inr (conditions, fieldset) \<Rightarrow> Inr (c # conditions, set_update fieldset fs)))"

text \<open>\<^verbatim>\<open>_make_execution_plan(projection, relations, condition, db)\<close>.\<close>

definition make_execution_plan ::
  "(string list \<Rightarrow> string list) \<Rightarrow> string list \<Rightarrow> string list \<Rightarrow> condition option \<Rightarrow> database
     \<Rightarrow> (error + (string list \<times> (string \<times> string list) list \<times> condition option)) option" where
  "make_execution_plan set_order projection relations condition db =
     (let resolve_qname = resolve (make_schema_map db relations) in
      (case (if projection = [''*''] then project_all relations db
             else map_result resolve_qname projection) of
         Inl e \<Rightarrow> Some (Inl e)
       | Inr projection' \<Rightarrow>
           (case (case condition of
                    None \<Rightarrow> Inr (None, [])
                  | Some c \<Rightarrow>
                      (case process_condition_fields c resolve_qname of
                         Inl e \<Rightarrow> Inl e
                       | Inr (cond_resolved, cond_fields) \<Rightarrow>
                           Inr (Some cond_resolved, cond_fields))) of
              Inl e \<Rightarrow> Some (Inl e)
            | Inr (cond_resolved, cond_fields) \<Rightarrow>
                (case plan_joins set_order projection' cond_fields relations db of
                   None \<Rightarrow> None
                 | Some (Inl e) \<Rightarrow> Some (Inl e)
                 | Some (Inr joins) \<Rightarrow> Some (Inr (projection', joins, cond_resolved))))))"

section \<open>Executor\<close>

text \<open>
  Modelled from the spec: the module \<^verbatim>\<open>tsdb\<close> with \<^verbatim>\<open>make_field_index\<close> and the
  database method \<^verbatim>\<open>select_from\<close> is not among the sources at hand. The field index
  is the map from the names of the fields to their positions. \<^verbatim>\<open>select_from(relation,
  columns)\<close> yields the rows of the relation, each with the values of the requested
  columns in the requested order; an unknown relation or column is a \<^verbatim>\<open>KeyError\<close>.
  A relation without stored rows is empty.
\<close>

definition make_field_index :: "fields \<Rightarrow> (string \<times> nat) list" where
  "make_field_index fs = fold (\<lambda>(i, f). AList.update (name f) i) (enumerate 0 fs) []"

definition index_row :: "'a list \<Rightarrow> nat \<Rightarrow> error + 'a" where
  "index_row row i = (if i < length row then Inr (row ! i) else Inl IndexError)"

definition lookup_key :: "(string \<times> 'a) list \<Rightarrow> string \<Rightarrow> error + 'a" where
  "lookup_key d k = (case map_of d k of None \<Rightarrow> Inl (KeyError k) | Some v \<Rightarrow> Inr v)"

definition select_from :: "database \<Rightarrow> string \<Rightarrow> string list \<Rightarrow> error + record_row list" where
  "select_from db relname columns =
     (case map_of (schema db) relname of
        None \<Rightarrow> Inl (KeyError relname)
      | Some fs \<Rightarrow>
          (case map_result (lookup_key (make_field_index fs)) columns of
             Inl e \<Rightarrow> Inl e
           | Inr indices \<Rightarrow>
               map_result (\<lambda>row. map_result (index_row row) indices)
                 (case map_of (tables db) relname of None \<Rightarrow> [] | Some rows \<Rightarrow> rows)))"

text \<open>The class \<^verbatim>\<open>Selection\<close>, its method \<^verbatim>\<open>select\<close> and its iterator.\<close>

record selection =
  sel_fields :: fields
  sel_field_index :: "(string \<times> nat) list"
  sel_data :: "record_row list"
  sel_projection :: "string list option"
  sel_joined :: "string list"

definition empty_selection :: selection where
  "empty_selection = \<lparr>sel_fields = [], sel_field_index = [], sel_data = [],
                       sel_projection = None, sel_joined = []\<rparr>"

definition selection_select :: "selection \<Rightarrow> string list \<Rightarrow> error + record_row list" where
  "selection_select sel names =
     (case (if names = [] then Inr [0..<length (sel_fields sel)]
            else map_result (lookup_key (sel_field_index sel)) names) of
        Inl e \<Rightarrow> Inl e
      | Inr indices \<Rightarrow>
          (case map_result (index_row (sel_fields sel)) indices of
             Inl e \<Rightarrow> Inl e
           | Inr fs \<Rightarrow> map_result (\<lambda>row. map_result (index_row row) indices) (sel_data sel)))"

definition selection_iter :: "selection \<Rightarrow> error + record_row list" where
  "selection_iter sel =
     (case sel_projection sel of
        None \<Rightarrow> selection_select sel []
      | Some names \<Rightarrow> selection_select sel names)"

text \<open>\<^verbatim>\<open>_merge_fields(selection, relationname, on, fields)\<close>.\<close>

definition merge_field :: "string \<Rightarrow> nat \<times> field \<Rightarrow> selection \<Rightarrow> selection" where
  "merge_field relationname p sel =
     (case p of (i, f) \<Rightarrow>
        sel\<lparr>sel_fields := sel_fields sel @ [f],
            sel_field_index :=
              AList.update (qualify relationname (name f)) i
                (if map_of (sel_field_index sel) (name f) = None
                 then AList.update (name f) i (sel_field_index sel)
                 else sel_field_index sel)\<rparr>)"

definition merge_on :: "string \<Rightarrow> string \<Rightarrow> error + selection \<Rightarrow> error + selection" where
  "merge_on relationname k acc =
     (case acc of
        Inl e \<Rightarrow> Inl e
      | Inr sel \<Rightarrow>
          (case lookup_key (sel_field_index sel) k of
             Inl e \<Rightarrow> Inl e
           | Inr i \<Rightarrow>
               Inr (sel\<lparr>sel_field_index :=
                          AList.update (qualify relationname k) i (sel_field_index sel)\<rparr>)))"

definition merge_fields :: "selection \<Rightarrow> string \<Rightarrow> string list \<Rightarrow> fields \<Rightarrow> error + selection" where
  "merge_fields sel relationname on fs =
     (case fold (merge_on relationname) on
             (Inr (fold (merge_field relationname) (enumerate (length (sel_fields sel)) fs) sel)) of
        Inl e \<Rightarrow> Inl e
      | Inr sel' \<Rightarrow> Inr (sel'\<lparr>sel_joined := List.insert relationname (sel_joined sel')\<rparr>))"

text \<open>
  \<^verbatim>\<open>_join(selection, db, name, columns, how)\<close>. The two branches of its body, for the
  first relation and for a later one, are \<open>join_first\<close> and \<open>join_next\<close>.
\<close>

definition join_rows ::
  "string \<Rightarrow> (record_row \<times> record_row list) list \<Rightarrow> record_row
     \<Rightarrow> record_row \<times> record_row \<Rightarrow> record_row list" where
  "join_rows how right rfill p =
     (case p of (keys, lrow) \<Rightarrow>
        if how = ''left'' \<or> map_of right keys \<noteq> None
        then map (\<lambda>rrow. lrow @ rrow)
               (case map_of right keys of None \<Rightarrow> [rfill] | Some rrows \<Rightarrow> rrows)
        else [])"

definition join_first ::
  "selection \<Rightarrow> database \<Rightarrow> string \<Rightarrow> string list \<Rightarrow> fields \<Rightarrow> error + selection" where
  "join_first sel db relname columns fs =
     (case merge_fields sel relname [] fs of
        Inl e \<Rightarrow> Inl e
      | Inr sel' \<Rightarrow>
          (case select_from db relname columns of
             Inl e \<Rightarrow> Inl e
           | Inr rows \<Rightarrow> Inr (sel'\<lparr>sel_data := rows\<rparr>)))"

definition join_next ::
  "selection \<Rightarrow> database \<Rightarrow> string \<Rightarrow> fields \<Rightarrow> string \<Rightarrow> error + selection" where
  "join_next sel db relname fs how =
     (let on = map name (filter (\<lambda>f. is_key f
                    \<and> map_of (sel_field_index sel) (name f) \<noteq> None) fs);
          fs' = filter (\<lambda>f. name f \<notin> set on) fs;
          cols = map name fs'
      in if on = [] then Inl (TSQLError ''no shared keys for joining'')
         else
           (case select_from db relname on of
              Inl e \<Rightarrow> Inl e
            | Inr keyrows \<Rightarrow>
                (case select_from db relname cols of
                   Inl e \<Rightarrow> Inl e
                 | Inr valrows \<Rightarrow>
                     (case selection_select sel on of
                        Inl e \<Rightarrow> Inl e
                      | Inr lkeys \<Rightarrow>
                          (case selection_iter sel of
                             Inl e \<Rightarrow> Inl e
                           | Inr lrows \<Rightarrow>
                               let right = fold (\<lambda>(keys, row). setdefault_append keys row)
                                             (zip keyrows valrows) [];
                                   rfill = replicate (length fs') VNone;
                                   data = concat (map (join_rows how right rfill)
                                                    (zip lkeys lrows))
                               in (case merge_fields sel relname on fs' of
                                     Inl e \<Rightarrow> Inl e
                                   | Inr sel' \<Rightarrow> Inr (sel'\<lparr>sel_data := data\<rparr>)))))))"

definition join ::
  "selection \<Rightarrow> database \<Rightarrow> string \<Rightarrow> string list \<Rightarrow> string \<Rightarrow> error + selection" where
  "join sel db relname columns how =
     (if how \<notin> {''inner'', ''left''} then
        Inl (TSQLError ''only inner and left join methods are allowed'')
      else if relname \<in> set (sel_joined sel) then
        Inl (TSQLError ''cannot join the same relation twice'')
      else
        (case lookup_key (schema db) relname of
           Inl e \<Rightarrow> Inl e
         | Inr all_fields \<Rightarrow>
             (case map_result (lookup_key (make_field_index all_fields)) columns of
                Inl e \<Rightarrow> Inl e
              | Inr indices \<Rightarrow>
                  (case map_result (index_row all_fields) indices of
                     Inl e \<Rightarrow> Inl e
                   | Inr fs \<Rightarrow>
                       if sel_joined sel = [] then join_first sel db relname columns fs
                       else join_next sel db relname fs how))))"

text \<open>
  \<^verbatim>\<open>_process_condition_function(condition, field_index)\<close> returns a function on rows.
  The comparison functions of \<^verbatim>\<open>_operator_functions\<close> follow Python: equality never
  fails, an ordering of values of different types is a \<^verbatim>\<open>TypeError\<close>. The regular
  expression search \<^verbatim>\<open>re.search\<close> is the parameter \<open>re_search\<close>; it is defined on
  strings only. \<^verbatim>\<open>all\<close> and \<^verbatim>\<open>any\<close> stop at the first condition that decides them.
\<close>

definition py_compare ::
  "(int \<Rightarrow> int \<Rightarrow> bool) \<Rightarrow> (string \<Rightarrow> string \<Rightarrow> bool) \<Rightarrow> tsdb_value \<Rightarrow> tsdb_value
     \<Rightarrow> error + bool" where
  "py_compare on_int on_str a b =
     (case (a, b) of
        (VInt x, VInt y) \<Rightarrow> Inr (on_int x y)
      | (VDate x, VDate y) \<Rightarrow> Inr (on_int x y)
      | (VStr x, VStr y) \<Rightarrow> Inr (on_str x y)
      | _ \<Rightarrow> Inl TypeError)"

definition operator_functions ::
  "(string \<times> (tsdb_value \<Rightarrow> tsdb_value \<Rightarrow> error + bool)) list" where
  "operator_functions =
     [(''=='', \<lambda>a b. Inr (a = b)),
      (''!='', \<lambda>a b. Inr (a \<noteq> b)),
      (''<'', py_compare (\<lambda>x y. x < y) str_less),
      (''<='', py_compare (\<lambda>x y. x \<le> y) (\<lambda>x y. \<not> str_less y x)),
      (''>'', py_compare (\<lambda>x y. x > y) (\<lambda>x y. str_less y x)),
      (''>='', py_compare (\<lambda>x y. x \<ge> y) (\<lambda>x y. \<not> str_less x y))]"

fun py_all :: "('a \<Rightarrow> error + bool) list \<Rightarrow> 'a \<Rightarrow> error + bool" where
  "py_all [] row = Inr True"
| "py_all (f # fs) row =
     (case f row of Inl e \<Rightarrow> Inl e | Inr b \<Rightarrow> if b then py_all fs row else Inr False)"

fun py_any :: "('a \<Rightarrow> error + bool) list \<Rightarrow> 'a \<Rightarrow> error + bool" where
  "py_any [] row = Inr False"
| "py_any (f # fs) row =
     (case f row of Inl e \<Rightarrow> Inl e | Inr b \<Rightarrow> if b then Inr True else py_any fs row)"

definition field_value :: "(string \<times> nat) list \<Rightarrow> string \<Rightarrow> record_row \<Rightarrow> error + tsdb_value" where
  "field_value field_index col row =
     (case lookup_key field_index col of Inl e \<Rightarrow> Inl e | Inr idx \<Rightarrow> index_row row idx)"

definition search_value ::
  "(string \<Rightarrow> string \<Rightarrow> bool) \<Rightarrow> tsdb_value \<Rightarrow> tsdb_value \<Rightarrow> error + bool" where
  "search_value re_search pattern v =
     (case (pattern, v) of
        (VStr p, VStr s) \<Rightarrow> Inr (re_search p s)
      | _ \<Rightarrow> Inl TypeError)"

fun process_condition_function ::
      "(string \<Rightarrow> string \<Rightarrow> bool) \<Rightarrow> condition \<Rightarrow> (string \<times> nat) list
         \<Rightarrow> error + (record_row \<Rightarrow> error + bool)"
  and process_body_functions ::
      "(string \<Rightarrow> string \<Rightarrow> bool) \<Rightarrow> condition list \<Rightarrow> (string \<times> nat) list
         \<Rightarrow> error + (record_row \<Rightarrow> error + bool) list"
where
  "process_condition_function re_search (Boolean op body) field_index =
     (case process_body_functions re_search body field_index of
        Inl e \<Rightarrow> Inl e
      | Inr conditions \<Rightarrow>
          Inr (if op = ''and'' then py_all conditions else py_any conditions))"
| "process_condition_function re_search (Negation body) field_index =
     (case process_condition_function re_search body field_index of
        Inl e \<Rightarrow> Inl e
      | Inr nfunc \<Rightarrow>
          Inr (\<lambda>row. case nfunc row of Inl e \<Rightarrow> Inl e | Inr b \<Rightarrow> Inr (\<not> b)))"
| "process_condition_function re_search (Comparison op col v) field_index =
     (if op = ''~'' then
        Inr (\<lambda>row. case field_value field_index col row of
                      Inl e \<Rightarrow> Inl e
                    | Inr val \<Rightarrow> search_value re_search v val)
      else if op = ''!~'' then
        Inr (\<lambda>row. case field_value field_index col row of
                      Inl e \<Rightarrow> Inl e
                    | Inr val \<Rightarrow>
                        (case search_value re_search v val of
                           Inl e \<Rightarrow> Inl e
                         | Inr b \<Rightarrow> Inr (\<not> b)))
      else
        (case lookup_key operator_functions op of
           Inl e \<Rightarrow> Inl e
         | Inr compare \<Rightarrow>
             Inr (\<lambda>row. case field_value field_index col row of
                           Inl e \<Rightarrow> Inl e
                         | Inr val \<Rightarrow> compare val v)))"
| "process_body_functions re_search [] field_index = Inr []"
| "process_body_functions re_search (cond # body) field_index =
     (case process_condition_function re_search cond field_index of
        Inl e \<Rightarrow> Inl e
      | Inr func \<Rightarrow>
          (case process_body_functions re_search body field_index of
             Inl e \<Rightarrow> Inl e
           | Inr funcs \<Rightarrow> Inr (func # funcs)))"

text \<open>\<^verbatim>\<open>list(filter(cond, data))\<close> with a condition that can raise.\<close>

fun filter_result :: "('a \<Rightarrow> error + bool) \<Rightarrow> 'a list \<Rightarrow> error + 'a list" where
  "filter_result cond [] = Inr []"
| "filter_result cond (x # xs) =
     (case cond x of
        Inl e \<Rightarrow> Inl e
      | Inr b \<Rightarrow>
          (case filter_result cond xs of
             Inl e \<Rightarrow> Inl e
           | Inr ys \<Rightarrow> Inr (if b then x # ys else ys)))"

text \<open>
  \<^verbatim>\<open>_select(projection, relations, condition, db, record_class)\<close>, the function
  \<^verbatim>\<open>select(querystring, db)\<close> on the tokens of the query string, and the rows that the
  iteration of the returned selection yields.
\<close>

definition join_step :: "database \<Rightarrow> string \<times> string list \<Rightarrow> error + selection \<Rightarrow> error + selection" where
  "join_step db p acc =
     (case acc of
        Inl e \<Rightarrow> Inl e
      | Inr sel \<Rightarrow> (case p of (relname, columns) \<Rightarrow> join sel db relname columns ''inner''))"

definition select_plan ::
  "(string list \<Rightarrow> string list) \<Rightarrow> (string \<Rightarrow> string \<Rightarrow> bool) \<Rightarrow> string list \<Rightarrow> string list
     \<Rightarrow> condition option \<Rightarrow> database \<Rightarrow> (error + selection) option" where
  "select_plan set_order re_search projection relations condition db =
     (case make_execution_plan set_order projection relations condition db of
        None \<Rightarrow> None
      | Some (Inl e) \<Rightarrow> Some (Inl e)
      | Some (Inr (proj, joins, condition')) \<Rightarrow>
          (case fold (join_step db) joins (Inr empty_selection) of
             Inl e \<Rightarrow> Some (Inl e)
           | Inr sel \<Rightarrow>
               (case (case condition' of
                        None \<Rightarrow> Inr sel
                      | Some c \<Rightarrow>
                          (case process_condition_function re_search c (sel_field_index sel) of
                             Inl e \<Rightarrow> Inl e
                           | Inr cond \<Rightarrow>
                               (case filter_result cond (sel_data sel) of
                                  Inl e \<Rightarrow> Inl e
                                | Inr data \<Rightarrow> Inr (sel\<lparr>sel_data := data\<rparr>)))) of
                  Inl e \<Rightarrow> Some (Inl e)
                | Inr sel' \<Rightarrow> Some (Inr (sel'\<lparr>sel_projection := Some proj\<rparr>)))))"

definition select ::
  "(string \<Rightarrow> string \<Rightarrow> tsdb_value) \<Rightarrow> (string list \<Rightarrow> string list)
     \<Rightarrow> (string \<Rightarrow> string \<Rightarrow> bool) \<Rightarrow> token list \<Rightarrow> database \<Rightarrow> (error + selection) option" where
  "select cast set_order re_search toks db =
     (case parse_select cast toks of
        None \<Rightarrow> None
      | Some (Inl e) \<Rightarrow> Some (Inl e)
      | Some (Inr queryobj) \<Rightarrow>
          select_plan set_order re_search (q_projection queryobj) (q_relations queryobj)
            (q_condition queryobj) db)"

definition select_rows ::
  "(string \<Rightarrow> string \<Rightarrow> tsdb_value) \<Rightarrow> (string list \<Rightarrow> string list)
     \<Rightarrow> (string \<Rightarrow> string \<Rightarrow> bool) \<Rightarrow> token list \<Rightarrow> database
     \<Rightarrow> (error + record_row list) option" where
  "select_rows cast set_order re_search toks db =
     (case select cast set_order re_search toks db of
        None \<Rightarrow> None
      | Some (Inl e) \<Rightarrow> Some (Inl e)
      | Some (Inr sel) \<Rightarrow> Some (selection_iter sel))"

section \<open>Auxiliary notions for the planner\<close>

text \<open>
  \<open>unselected\<close> counts the relations of the keymap that are neither requested nor pivots:
  the measure of the pivot search. \<open>joinmap_ok\<close> and \<open>requested_ok\<close> are invariants of
  the first loop of \<open>plan_joins\<close>: the keys of the joinmap are distinct and belong to
  \<open>relset\<close>, and so does the relation of every name that was added.
\<close>

definition unselected :: "(string \<times> string list) list \<Rightarrow> string list \<Rightarrow> string list \<Rightarrow> nat" where
  "unselected keymap relset pivots =
     length (filter (\<lambda>(rel, keys). rel \<notin> set relset \<union> set pivots) keymap)"

definition joinmap_ok :: "(string \<times> string list) list \<times> string list \<times> string list \<Rightarrow> bool" where
  "joinmap_ok st \<longleftrightarrow>
     (case st of (joinmap, added, relset) \<Rightarrow>
        distinct (map fst joinmap) \<and> fst ` set joinmap \<subseteq> set relset)"

definition requested_ok :: "(string \<times> string list) list \<times> string list \<times> string list \<Rightarrow> bool" where
  "requested_ok st \<longleftrightarrow>
     (case st of (joinmap, added, relset) \<Rightarrow>
        \<forall>q \<in> set added. fst (rpartition CHR ''.'' q) \<in> set relset)"

text \<open>
  The schema of three relations \<open>R1\<close>, \<open>R2\<close> and \<open>R3\<close> with the keys \<open>{a}\<close>,
  \<open>{a, b}\<close> and \<open>{b}\<close>, where \<open>R1\<close> and \<open>R3\<close> have one more field each, and the same
  schema without \<open>R2\<close>.
\<close>

definition key_field :: "string \<Rightarrow> field" where
  "key_field n = \<lparr>name = n, dtype = '':integer'', is_key = True\<rparr>"

definition data_field :: "string \<Rightarrow> field" where
  "data_field n = \<lparr>name = n, dtype = '':string'', is_key = False\<rparr>"

definition three_relations :: database where
  "three_relations =
     \<lparr>schema = [(''R1'', [key_field ''a'', data_field ''x'']),
                (''R2'', [key_field ''a'', key_field ''b'']),
                (''R3'', [key_field ''b'', data_field ''y''])],
      tables = []\<rparr>"






section \<open>Verification: schema resolver\<close>

lemma getl_setdefault_append:
  "getl (setdefault_append k v d) k' = (if k' = k then getl d k @ [v] else getl d k')"
  by (induction d) (auto simp: getl_def)

lemma nonempty_setdefault_append:
  "map_of d k' \<noteq> Some [] \<Longrightarrow> map_of (setdefault_append k v d) k' \<noteq> Some []"
proof (induction d)
  case Nil
  then show ?case by simp
next
  case (Cons p d)
  obtain a b where p: "p = (a, b)" by (cases p)
  show ?case using Cons unfolding p by (cases "a = k"; cases "k' = a"; simp)
qed

lemma getl_inner:
  "getl (fold (\<lambda>f. setdefault_append (name f) r) fs m) c =
     getl m c @ map (\<lambda>_. r) (filter (\<lambda>f. name f = c) fs)"
  by (induction fs arbitrary: m) (auto simp: getl_setdefault_append)

lemma nonempty_inner:
  "map_of m c \<noteq> Some [] \<Longrightarrow>
   map_of (fold (\<lambda>f. setdefault_append (name f) r) fs m) c \<noteq> Some []"
  by (induction fs arbitrary: m) (auto simp: nonempty_setdefault_append)

lemma candidates_simps:
  "candidates [] c = []"
  "candidates ((r, fs) # sch) c = map (\<lambda>_. r) (filter (\<lambda>f. name f = c) fs) @ candidates sch c"
  by (simp_all add: candidates_def)

lemma set_candidates:
  "set (candidates sch c) = {r. \<exists>fs f. (r, fs) \<in> set sch \<and> f \<in> set fs \<and> name f = c}"
proof (induction sch)
  case Nil
  show ?case by (simp add: candidates_simps)
next
  case (Cons p sch)
  obtain r fs where p: "p = (r, fs)" by (cases p)
  show ?case unfolding p by (auto simp: candidates_simps Cons)
qed

lemma getl_outer:
  "getl (fold (\<lambda>(relname, fs) m. fold (\<lambda>f. setdefault_append (name f) relname) fs m) sch m) c =
     getl m c @ candidates sch c"
proof (induction sch arbitrary: m)
  case Nil
  show ?case by (simp add: candidates_simps)
next
  case (Cons p sch)
  obtain r fs where p: "p = (r, fs)" by (cases p)
  show ?case unfolding p by (simp add: Cons getl_inner candidates_simps)
qed

lemma nonempty_outer:
  "map_of m c \<noteq> Some [] \<Longrightarrow>
   map_of (fold (\<lambda>(relname, fs) m. fold (\<lambda>f. setdefault_append (name f) relname) fs m) sch m) c
     \<noteq> Some []"
proof (induction sch arbitrary: m)
  case Nil
  then show ?case by simp
next
  case (Cons p sch)
  obtain r fs where p: "p = (r, fs)" by (cases p)
  show ?case unfolding p using Cons.prems by (simp add: Cons.IH nonempty_inner)
qed

lemma map_of_map_values:
  "map_of (map (\<lambda>(k, v). (k, f v)) m) c = map_option f (map_of m c)"
proof (induction m)
  case Nil
  show ?case by simp
next
  case (Cons p m)
  obtain a b where p: "p = (a, b)" by (cases p)
  show ?case unfolding p by (simp add: Cons)
qed

lemma map_of_schema_map:
  "map_of (make_schema_map db relations) c =
     (if candidates (schema db) c = [] then None
      else Some (sorted_contains_reverse relations (candidates (schema db) c)))"
proof -
  let ?m = "fold (\<lambda>(relname, fs) m. fold (\<lambda>f. setdefault_append (name f) relname) fs m)
              (schema db) []"
  have g: "getl ?m c = candidates (schema db) c"
    using getl_outer[of "schema db" "[]" c] by (simp add: getl_def)
  have n: "map_of ?m c \<noteq> Some []"
    by (rule nonempty_outer) simp
  have "map_of ?m c =
          (if candidates (schema db) c = [] then None else Some (candidates (schema db) c))"
    using g n by (auto simp: getl_def split: option.splits)
  moreover have "map_of (make_schema_map db relations) c =
                   map_option (sorted_contains_reverse relations) (map_of ?m c)"
    unfolding make_schema_map_def Let_def
    using map_of_map_values[of "sorted_contains_reverse relations" ?m c] by simp
  ultimately show ?thesis by simp
qed

lemma rpartition_nodot: "c \<notin> set s \<Longrightarrow> rpartition c s = ([], s)"
  by (simp add: rpartition_def)

lemma rpartition_qualify:
  "CHR ''.'' \<notin> set col \<Longrightarrow> rpartition CHR ''.'' (qualify rel col) = (rel, col)"
  by (simp add: rpartition_def qualify_def takeWhile_append dropWhile_append
       takeWhile_eq_all_conv[THEN iffD2] dropWhile_eq_Nil_conv[THEN iffD2])

lemma sorted_contains_reverse_Nil_iff: "sorted_contains_reverse rs xs = [] \<longleftrightarrow> xs = []"
  by (induction xs) (auto simp: sorted_contains_reverse_def)

lemma hd_sorted_contains_reverse:
  "hd (sorted_contains_reverse rs xs) = hd (filter (\<lambda>x. x \<in> set rs) xs @ xs)"
proof (cases "filter (\<lambda>x. x \<in> set rs) xs = []")
  case True
  then have "filter (\<lambda>x. x \<notin> set rs) xs = xs"
    by (simp add: filter_empty_conv)
  with True show ?thesis by (simp add: sorted_contains_reverse_def)
next
  case False
  then show ?thesis by (simp add: sorted_contains_reverse_def)
qed

text \<open>
  Claim C6. An unqualified column name (one without a dot) that is a field of no relation
  of the schema makes \<open>resolve\<close> fail with the engine error "undefined column: name".
  Otherwise the name is qualified with the first candidate relation: the first relation,
  in schema order, that has the field and is named in the from clause, or, when no named
  relation has the field, the first relation of the schema that has it.
\<close>

theorem resolve_unqualified:
  assumes "CHR ''.'' \<notin> set colname"
  shows "((\<forall>(r, fs) \<in> set (schema db). \<forall>f \<in> set fs. name f \<noteq> colname) \<longrightarrow>
            resolve (make_schema_map db relations) colname
              = Inl (TSQLError (''undefined column: '' @ colname)))
       \<and> ((\<exists>(r, fs) \<in> set (schema db). \<exists>f \<in> set fs. name f = colname) \<longrightarrow>
            resolve (make_schema_map db relations) colname
              = Inr (hd (filter (\<lambda>r. r \<in> set relations) (candidates (schema db) colname)
                         @ candidates (schema db) colname) @ ''.'' @ colname))"
proof -
  let ?c = "candidates (schema db) colname"
  have rp: "rpartition CHR ''.'' colname = ([], colname)"
    using assms by (rule rpartition_nodot)
  have empty_iff: "?c = [] \<longleftrightarrow> (\<forall>(r, fs) \<in> set (schema db). \<forall>f \<in> set fs. name f \<noteq> colname)"
  proof -
    have "?c = [] \<longleftrightarrow> set ?c = {}" by simp
    also have "\<dots> \<longleftrightarrow> (\<forall>(r, fs) \<in> set (schema db). \<forall>f \<in> set fs. name f \<noteq> colname)"
      unfolding set_candidates by fastforce
    finally show ?thesis .
  qed
  have undefined: "?c = [] \<Longrightarrow> resolve (make_schema_map db relations) colname
                      = Inl (TSQLError (''undefined column: '' @ colname))"
    by (simp add: resolve_def rp map_of_schema_map)
  have defined: "resolve (make_schema_map db relations) colname
                   = Inr (hd (filter (\<lambda>r. r \<in> set relations) ?c @ ?c) @ ''.'' @ colname)"
    if ne: "?c \<noteq> []"
  proof -
    let ?s = "sorted_contains_reverse relations ?c"
    from ne have "?s \<noteq> []" by (simp add: sorted_contains_reverse_Nil_iff)
    then obtain x xs where s: "?s = x # xs" by (cases ?s) auto
    have "x = hd (filter (\<lambda>r. r \<in> set relations) ?c @ ?c)"
      using hd_sorted_contains_reverse[of relations ?c] s by simp
    then show ?thesis
      using ne s by (simp add: resolve_def rp map_of_schema_map qualify_def)
  qed
  show ?thesis
  proof (intro conjI impI)
    assume "\<forall>(r, fs) \<in> set (schema db). \<forall>f \<in> set fs. name f \<noteq> colname"
    then have "?c = []" using empty_iff by simp
    then show "resolve (make_schema_map db relations) colname
                 = Inl (TSQLError (''undefined column: '' @ colname))"
      by (rule undefined)
  next
    assume "\<exists>(r, fs) \<in> set (schema db). \<exists>f \<in> set fs. name f = colname"
    then have "?c \<noteq> []" using empty_iff by fastforce
    then show "resolve (make_schema_map db relations) colname
                 = Inr (hd (filter (\<lambda>r. r \<in> set relations) ?c @ ?c) @ ''.'' @ colname)"
      by (rule defined)
  qed
qed

text \<open>
  The theorem at a two-relation schema where \<open>i-id\<close> is a field of both relations: with
  \<open>parse\<close> named in the from clause the name resolves to \<open>parse.i-id\<close>, and a name that
  is a field of no relation is undefined.
\<close>

theorem resolve_unqualified_witness:
  "CHR ''.'' \<notin> set ''i-id''
   \<and> resolve (make_schema_map
        \<lparr>schema = [(''item'', [\<lparr>name = ''i-id'', dtype = '':integer'', is_key = True\<rparr>,
                                \<lparr>name = ''i-input'', dtype = '':string'', is_key = False\<rparr>]),
                   (''parse'', [\<lparr>name = ''parse-id'', dtype = '':integer'', is_key = True\<rparr>,
                                \<lparr>name = ''i-id'', dtype = '':integer'', is_key = True\<rparr>])],
         tables = []\<rparr> [''parse'']) ''i-id'' = Inr ''parse.i-id''"
proof -
  let ?db = "\<lparr>schema = [(''item'', [\<lparr>name = ''i-id'', dtype = '':integer'', is_key = True\<rparr>,
                                \<lparr>name = ''i-input'', dtype = '':string'', is_key = False\<rparr>]),
                   (''parse'', [\<lparr>name = ''parse-id'', dtype = '':integer'', is_key = True\<rparr>,
                                \<lparr>name = ''i-id'', dtype = '':integer'', is_key = True\<rparr>])],
         tables = []\<rparr>"
  have nodot: "CHR ''.'' \<notin> set ''i-id''" by simp
  have ex: "\<exists>(r, fs) \<in> set (schema ?db). \<exists>f \<in> set fs. name f = ''i-id''" by simp
  have c: "candidates (schema ?db) ''i-id'' = [''item'', ''parse'']"
    by (simp add: candidates_def)
  from resolve_unqualified[OF nodot, of ?db "[''parse'']"] ex
  have "resolve (make_schema_map ?db [''parse'']) ''i-id''
          = Inr (hd (filter (\<lambda>r. r \<in> set [''parse'']) (candidates (schema ?db) ''i-id'')
                     @ candidates (schema ?db) ''i-id'') @ ''.'' @ ''i-id'')"
    by blast
  then show ?thesis using nodot unfolding c by simp
qed

section \<open>Verification: parser\<close>

lemma proper_suffix_Cons [simp]: "proper_suffix rest (x # rest)"
  unfolding proper_suffix_def by (rule exI[of _ "[x]"]) simp

lemma proper_suffix_Cons2: "proper_suffix rest toks \<Longrightarrow> proper_suffix rest (x # toks)"
  unfolding proper_suffix_def by (metis append_Cons list.distinct(1))

lemma proper_suffix_trans:
  "proper_suffix a b \<Longrightarrow> proper_suffix b c \<Longrightarrow> proper_suffix a c"
  unfolding proper_suffix_def by (metis append_assoc append_is_Nil_conv)

lemma proper_suffix_length: "proper_suffix rest toks \<Longrightarrow> length rest < length toks"
  unfolding proper_suffix_def by auto

lemma proper_suffix_set: "proper_suffix rest toks \<Longrightarrow> set rest \<subseteq> set toks"
  unfolding proper_suffix_def by auto

lemma accept_type_Some: "accept_type ty toks = (Some v, rest) \<Longrightarrow> toks = (ty, v) # rest"
  by (auto simp: accept_type_def split: list.splits if_splits)

lemma accept_type_None: "accept_type ty toks = (None, rest) \<Longrightarrow> rest = toks"
  by (auto simp: accept_type_def split: list.splits if_splits)

lemma expect_type_Inr: "expect_type ty toks = Inr (v, rest) \<Longrightarrow> toks = (ty, v) # rest"
  by (auto simp: expect_type_def split: list.splits if_splits)

lemma choice_type_Inr:
  "choice_type cs toks = Inr ((t, v), rest) \<Longrightarrow> toks = (t, v) # rest \<and> t \<in> set cs"
  by (auto simp: choice_type_def split: list.splits if_splits)

lemma statement_choice:
  "(if op \<in> {''~'', ''!~''} then choice_type [T_DQSTRING, T_SQSTRING] toks1
    else if op \<in> {''<'', ''<='', ''>'', ''>=''} then
      choice_type [T_INT, T_YYYYMMDD, T_DDMMYY, T_KWDATE] toks1
    else choice_type [T_INT, T_DQSTRING, T_SQSTRING, T_YYYYMMDD, T_DDMMYY, T_KWDATE] toks1)
   = choice_type (literal_types op) toks1"
  unfolding literal_types_def date_types_def
  by (cases "op \<in> {''~'', ''!~''}"; cases "op \<in> {''<'', ''<='', ''>'', ''>=''}";
      simp only: if_True if_False append.simps)

lemma statement_value:
  "(if ty = T_INT then
      (case py_int val of
         Inl e \<Rightarrow> Inl e
       | Inr i \<Rightarrow> Inr (Comparison op column (VInt i), toks2))
    else if ty \<in> {T_YYYYMMDD, T_DDMMYY, T_KWDATE} then
      Inr (Comparison op column (cast '':date'' val), toks2)
    else Inr (Comparison op column (VStr val), toks2))
   = (case literal_value cast ty val of
        Inl e \<Rightarrow> Inl e
      | Inr v \<Rightarrow> Inr (Comparison op column v, toks2))"
  unfolding literal_value_def date_types_def
  by (cases "py_int val"; simp)

lemma parse_condition_statement_unfold:
  "parse_condition_statement cast column toks =
     (case expect_type T_OP toks of
        Inl e \<Rightarrow> Inl e
      | Inr (op0, toks1) \<Rightarrow>
          (case choice_type (literal_types (if op0 = ''='' then ''=='' else op0)) toks1 of
             Inl e \<Rightarrow> Inl e
           | Inr ((ty, val), toks2) \<Rightarrow>
               (case literal_value cast ty val of
                  Inl e \<Rightarrow> Inl e
                | Inr v \<Rightarrow> Inr (Comparison (if op0 = ''='' then ''=='' else op0) column v, toks2))))"
  unfolding parse_condition_statement_def Let_def statement_choice statement_value ..

lemma parse_condition_statement_Inr:
  assumes "parse_condition_statement cast col toks = Inr (c, rest)"
  shows "\<exists>a b. toks = a # b # rest"
proof -
  obtain op0 toks1 where e: "expect_type T_OP toks = Inr (op0, toks1)"
    using assms unfolding parse_condition_statement_unfold
    by (cases "expect_type T_OP toks") auto
  obtain ty val toks2 where
    ch: "choice_type (literal_types (if op0 = ''='' then ''=='' else op0)) toks1 = Inr ((ty, val), toks2)"
    using assms
    by (cases "choice_type (literal_types (if op0 = ''='' then ''=='' else op0)) toks1")
       (auto simp: parse_condition_statement_unfold e)
  have "rest = toks2"
    using assms by (simp add: parse_condition_statement_unfold e ch split: sum.splits)
  with expect_type_Inr[OF e] choice_type_Inr[OF ch] show ?thesis by simp
qed

lemma parse_statement_suffix:
  "parse_condition_statement cast col toks = Inr (c, rest) \<Longrightarrow> proper_suffix rest toks"
  by (auto dest!: parse_condition_statement_Inr intro: proper_suffix_Cons2)

lemma accept_type_cases:
  obtains (hit) v rest where "toks = (ty, v) # rest" "accept_type ty toks = (Some v, rest)"
        | (miss) "accept_type ty toks = (None, toks)" "toks = [] \<or> fst (hd toks) \<noteq> ty"
proof (cases toks)
  case Nil
  then show ?thesis using miss by (simp add: accept_type_def)
next
  case (Cons p rest)
  obtain t v where p: "p = (t, v)" by (cases p)
  show ?thesis
  proof (cases "t = ty")
    case True
    then show ?thesis using hit[of v rest] Cons p by (simp add: accept_type_def)
  next
    case False
    then show ?thesis using miss Cons p by (simp add: accept_type_def)
  qed
qed

lemma conjunction_loop_Suc:
  "conjunction_loop cast (Suc n) conds toks =
     (case choice_type [T_NOT, T_LPAREN, T_QID, T_ID] toks of
        Inl e \<Rightarrow> Some (Inl e)
      | Inr ((ty, token), toks1) \<Rightarrow>
          (case conjunction_item cast n ty token toks1 of
             None \<Rightarrow> None
           | Some (Inl e) \<Rightarrow> Some (Inl e)
           | Some (Inr (c, toks4)) \<Rightarrow>
               (case accept_type T_AND toks4 of
                  (Some _, toks5) \<Rightarrow> conjunction_loop cast n (conds @ [c]) toks5
                | (None, toks5) \<Rightarrow> finish_loop ''and'' (conds @ [c]) toks5)))"
  unfolding conjunction_loop.simps conjunction_item_def finish_loop_def ..

lemma disjunction_loop_Suc:
  "disjunction_loop cast (Suc n) conds toks =
     (case parse_condition_conjunction cast n toks of
        None \<Rightarrow> None
      | Some (Inl e) \<Rightarrow> Some (Inl e)
      | Some (Inr (c, toks1)) \<Rightarrow>
          (case accept_type T_OR toks1 of
             (Some _, toks2) \<Rightarrow> disjunction_loop cast n (conds @ [c]) toks2
           | (None, toks2) \<Rightarrow> finish_loop ''or'' (conds @ [c]) toks2))"
  unfolding disjunction_loop.simps finish_loop_def ..

lemma finish_loop_snoc:
  "finish_loop op (conds @ [c]) toks =
     Some (Inr (if conds = [] then c else Boolean op (conds @ [c]), toks))"
  by (cases conds; cases "tl conds") (auto simp: finish_loop_def make_boolean_def)

lemma parser_zero:
  "parse_condition_disjunction cast 0 toks = None"
  "disjunction_loop cast 0 conds toks = None"
  "parse_condition_conjunction cast 0 toks = None"
  "conjunction_loop cast 0 conds toks = None"
  by simp_all

lemma parser_wrap:
  "parse_condition_disjunction cast (Suc n) toks = disjunction_loop cast n [] toks"
  "parse_condition_conjunction cast (Suc n) toks = conjunction_loop cast n [] toks"
  by simp_all

declare parse_condition_disjunction.simps [simp del]

lemma conjunction_item_suffix:
  assumes d: "\<And>toks c rest. parse_condition_disjunction cast n toks = Some (Inr (c, rest))
                 \<Longrightarrow> proper_suffix rest toks"
    and it: "conjunction_item cast n ty token toks1 = Some (Inr (c1, toks4))"
  shows "proper_suffix toks4 toks1"
proof (cases "ty = T_NOT")
  case True
  with it d show ?thesis unfolding conjunction_item_def
    by (auto split: option.splits sum.splits)
next
  case False
  show ?thesis
  proof (cases "ty = T_LPAREN")
    case True
    with it obtain c2 toks2 v where
      "parse_condition_disjunction cast n toks1 = Some (Inr (c2, toks2))"
      "expect_type T_RPAREN toks2 = Inr (v, toks4)"
      unfolding conjunction_item_def by (auto split: option.splits sum.splits)
    with d expect_type_Inr show ?thesis
      by (metis proper_suffix_Cons proper_suffix_trans)
  next
    case F2: False
    with False it show ?thesis unfolding conjunction_item_def
      by (auto dest: parse_statement_suffix)
  qed
qed

lemma parse_suffix_all:
  "(\<forall>toks c rest. parse_condition_disjunction cast n toks = Some (Inr (c, rest))
       \<longrightarrow> proper_suffix rest toks)
   \<and> (\<forall>conds toks c rest. disjunction_loop cast n conds toks = Some (Inr (c, rest))
       \<longrightarrow> proper_suffix rest toks)
   \<and> (\<forall>toks c rest. parse_condition_conjunction cast n toks = Some (Inr (c, rest))
       \<longrightarrow> proper_suffix rest toks)
   \<and> (\<forall>conds toks c rest. conjunction_loop cast n conds toks = Some (Inr (c, rest))
       \<longrightarrow> proper_suffix rest toks)"
proof (induction n)
  case 0
  show ?case by (simp add: parser_zero)
next
  case (Suc n)
  note IH = Suc.IH
  have d: "proper_suffix rest toks"
    if "parse_condition_disjunction cast (Suc n) toks = Some (Inr (c, rest))" for toks c rest
    using that IH by (simp add: parser_wrap)
  have c: "proper_suffix rest toks"
    if "parse_condition_conjunction cast (Suc n) toks = Some (Inr (c, rest))" for toks c rest
    using that IH by (simp add: parser_wrap)
  have dl: "proper_suffix rest toks"
    if h: "disjunction_loop cast (Suc n) conds toks = Some (Inr (c, rest))" for conds toks c rest
  proof -
    from h obtain c1 toks1 where
      p: "parse_condition_conjunction cast n toks = Some (Inr (c1, toks1))"
      unfolding disjunction_loop_Suc by (auto split: option.splits sum.splits)
    from IH p have s1: "proper_suffix toks1 toks" by blast
    show ?thesis
    proof (cases rule: accept_type_cases[of toks1 T_OR])
      case (hit v r)
      with h p have "disjunction_loop cast n (conds @ [c1]) r = Some (Inr (c, rest))"
        unfolding disjunction_loop_Suc by simp
      with IH have "proper_suffix rest r" by blast
      then have "proper_suffix rest toks1" unfolding hit(1) by (rule proper_suffix_Cons2)
      then show ?thesis using s1 by (rule proper_suffix_trans)
    next
      case miss
      with h p have "rest = toks1"
        unfolding disjunction_loop_Suc by (simp add: finish_loop_snoc)
      then show ?thesis using s1 by simp
    qed
  qed
  have cl: "proper_suffix rest toks"
    if h: "conjunction_loop cast (Suc n) conds toks = Some (Inr (c, rest))" for conds toks c rest
  proof -
    from h obtain ty token toks1 where
      ch: "choice_type [T_NOT, T_LPAREN, T_QID, T_ID] toks = Inr ((ty, token), toks1)"
      unfolding conjunction_loop_Suc
      by (cases "choice_type [T_NOT, T_LPAREN, T_QID, T_ID] toks") auto
    from choice_type_Inr[OF ch] have t: "toks = (ty, token) # toks1" by simp
    from h ch obtain c1 toks4 where
      it: "conjunction_item cast n ty token toks1 = Some (Inr (c1, toks4))"
      unfolding conjunction_loop_Suc by (auto split: option.splits sum.splits)
    have "proper_suffix toks4 toks1"
    proof (rule conjunction_item_suffix[OF _ it])
      fix toks c rest
      assume "parse_condition_disjunction cast n toks = Some (Inr (c, rest))"
      with IH show "proper_suffix rest toks" by blast
    qed
    then have s4: "proper_suffix toks4 toks" unfolding t by (rule proper_suffix_Cons2)
    show ?thesis
    proof (cases rule: accept_type_cases[of toks4 T_AND])
      case (hit v r)
      with h ch it have "conjunction_loop cast n (conds @ [c1]) r = Some (Inr (c, rest))"
        unfolding conjunction_loop_Suc by simp
      with IH have "proper_suffix rest r" by blast
      then have "proper_suffix rest toks4" unfolding hit(1) by (rule proper_suffix_Cons2)
      then show ?thesis using s4 by (rule proper_suffix_trans)
    next
      case miss
      with h ch it have "rest = toks4"
        unfolding conjunction_loop_Suc by (simp add: finish_loop_snoc)
      then show ?thesis using s4 by simp
    qed
  qed
  show ?case using d dl c cl by blast
qed

lemma disjunction_suffix:
  "parse_condition_disjunction cast n toks = Some (Inr (c, rest)) \<Longrightarrow> proper_suffix rest toks"
  using parse_suffix_all[of cast n] by blast

lemma item_suffix:
  "conjunction_item cast n ty token toks1 = Some (Inr (c1, toks4)) \<Longrightarrow> proper_suffix toks4 toks1"
  by (rule conjunction_item_suffix[OF disjunction_suffix])

lemma conjunction_suffix:
  "parse_condition_conjunction cast n toks = Some (Inr (c, rest)) \<Longrightarrow> proper_suffix rest toks"
  using parse_suffix_all[of cast n] by blast

lemma parse_fuel_all:
  "(\<forall>toks. 4 * length toks + 4 \<le> n \<longrightarrow> parse_condition_disjunction cast n toks \<noteq> None)
   \<and> (\<forall>conds toks. 4 * length toks + 3 \<le> n \<longrightarrow> disjunction_loop cast n conds toks \<noteq> None)
   \<and> (\<forall>toks. 4 * length toks + 2 \<le> n \<longrightarrow> parse_condition_conjunction cast n toks \<noteq> None)
   \<and> (\<forall>conds toks. 4 * length toks + 1 \<le> n \<longrightarrow> conjunction_loop cast n conds toks \<noteq> None)"
proof (induction n)
  case 0
  show ?case by simp
next
  case (Suc n)
  note IH = Suc.IH
  have d: "parse_condition_disjunction cast (Suc n) toks \<noteq> None"
    if "4 * length toks + 4 \<le> Suc n" for toks
    using that IH by (simp add: parser_wrap)
  have c: "parse_condition_conjunction cast (Suc n) toks \<noteq> None"
    if "4 * length toks + 2 \<le> Suc n" for toks
    using that IH by (simp add: parser_wrap)
  have dl: "disjunction_loop cast (Suc n) conds toks \<noteq> None"
    if b: "4 * length toks + 3 \<le> Suc n" for conds toks
  proof (cases "parse_condition_conjunction cast n toks")
    case None
    from b have "4 * length toks + 2 \<le> n" by simp
    with IH have "parse_condition_conjunction cast n toks \<noteq> None" by blast
    with None show ?thesis by simp
  next
    case (Some r)
    show ?thesis
    proof (cases r)
      case (Inl e)
      with Some show ?thesis unfolding disjunction_loop_Suc by simp
    next
      case (Inr p)
      obtain c1 toks1 where p: "p = (c1, toks1)" by (cases p)
      from Some Inr p have l: "length toks1 < length toks"
        by (auto dest!: conjunction_suffix proper_suffix_length)
      show ?thesis
      proof (cases rule: accept_type_cases[of toks1 T_OR])
        case (hit v r)
        with l b have "4 * length r + 3 \<le> n" by simp
        with IH have "disjunction_loop cast n (conds @ [c1]) r \<noteq> None" by blast
        with Some Inr p hit show ?thesis unfolding disjunction_loop_Suc by simp
      next
        case miss
        with Some Inr p show ?thesis
          unfolding disjunction_loop_Suc by (simp add: finish_loop_snoc)
      qed
    qed
  qed
  have cl: "conjunction_loop cast (Suc n) conds toks \<noteq> None"
    if b: "4 * length toks + 1 \<le> Suc n" for conds toks
  proof (cases "choice_type [T_NOT, T_LPAREN, T_QID, T_ID] toks")
    case (Inl e)
    then show ?thesis unfolding conjunction_loop_Suc by simp
  next
    case (Inr q)
    obtain ty token toks1 where q: "q = ((ty, token), toks1)" by (cases q) auto
    from choice_type_Inr[OF Inr[unfolded q]] have t: "toks = (ty, token) # toks1" by simp
    with b have b1: "4 * length toks1 + 4 \<le> n" by simp
    with IH have dn: "parse_condition_disjunction cast n toks1 \<noteq> None" by blast
    have itn: "conjunction_item cast n ty token toks1 \<noteq> None"
      using dn unfolding conjunction_item_def by (auto split: option.splits sum.splits)
    then obtain r where it: "conjunction_item cast n ty token toks1 = Some r" by auto
    show ?thesis
    proof (cases r)
      case (Inl e)
      with Inr q it show ?thesis unfolding conjunction_loop_Suc by simp
    next
      case r: (Inr p)
      obtain c1 toks4 where p: "p = (c1, toks4)" by (cases p)
      from it r p have l: "length toks4 < length toks1"
        by (auto dest!: item_suffix proper_suffix_length)
      show ?thesis
      proof (cases rule: accept_type_cases[of toks4 T_AND])
        case (hit v r')
        with l b1 have "4 * length r' + 1 \<le> n" by simp
        with IH have "conjunction_loop cast n (conds @ [c1]) r' \<noteq> None" by blast
        with Inr q it r p hit show ?thesis unfolding conjunction_loop_Suc by simp
      next
        case miss
        with Inr q it r p show ?thesis
          unfolding conjunction_loop_Suc by (simp add: finish_loop_snoc)
      qed
    qed
  qed
  show ?case using d dl c cl by blast
qed

lemma is_syntax_error_simps [simp]:
  "is_syntax_error (TSQLSyntaxError m)"
  by (simp add: is_syntax_error_def)

lemma wf_tokens_Cons: "wf_tokens ((t, v) # toks) \<longleftrightarrow> (t = T_INT \<longrightarrow> is_int_literal v) \<and> wf_tokens toks"
  by (simp add: wf_tokens_def)

lemma wf_tokens_suffix: "proper_suffix rest toks \<Longrightarrow> wf_tokens toks \<Longrightarrow> wf_tokens rest"
  unfolding proper_suffix_def wf_tokens_def by auto

lemma expect_type_Inl: "expect_type ty toks = Inl e \<Longrightarrow> is_syntax_error e"
  by (auto simp: expect_type_def split: list.splits if_splits)

lemma choice_type_Inl: "choice_type cs toks = Inl e \<Longrightarrow> is_syntax_error e"
  by (auto simp: choice_type_def split: list.splits if_splits)

lemma py_int_literal: "is_int_literal v \<Longrightarrow> \<exists>i. py_int v = Inr i"
  by (simp add: py_int_def)

lemma literal_value_Inl:
  "literal_value cast ty v = Inl e \<Longrightarrow> ty = T_INT \<and> \<not> is_int_literal v"
  unfolding literal_value_def
  by (cases "ty = T_INT"; cases "is_int_literal v") (auto simp: py_int_def split: if_splits)

lemma parse_condition_statement_Inl:
  assumes wf: "wf_tokens toks" and h: "parse_condition_statement cast col toks = Inl e"
  shows "is_syntax_error e"
proof (cases "expect_type T_OP toks")
  case (Inl e')
  with h show ?thesis
    by (auto simp: parse_condition_statement_unfold dest: expect_type_Inl)
next
  case (Inr p)
  obtain op0 toks1 where p: "p = (op0, toks1)" by (cases p)
  from expect_type_Inr[OF Inr[unfolded p]] have t: "toks = (T_OP, op0) # toks1" .
  let ?cs = "literal_types (if op0 = ''='' then ''=='' else op0)"
  show ?thesis
  proof (cases "choice_type ?cs toks1")
    case (Inl e')
    with h Inr p show ?thesis
      by (auto simp: parse_condition_statement_unfold dest: choice_type_Inl)
  next
    case r: (Inr q)
    obtain ty v toks2 where q: "q = ((ty, v), toks2)" by (cases q) auto
    from choice_type_Inr[OF r[unfolded q]] have t1: "toks1 = (ty, v) # toks2" by simp
    from h Inr p r q have "literal_value cast ty v = Inl e"
      by (auto simp: parse_condition_statement_unfold split: sum.splits)
    then have "ty = T_INT \<and> \<not> is_int_literal v" by (rule literal_value_Inl)
    with wf t t1 show ?thesis by (simp add: wf_tokens_Cons)
  qed
qed

lemma conjunction_item_Inl:
  assumes d: "\<And>toks e. wf_tokens toks \<Longrightarrow> parse_condition_disjunction cast n toks = Some (Inl e)
                 \<Longrightarrow> is_syntax_error e"
    and wf: "wf_tokens toks1"
    and it: "conjunction_item cast n ty token toks1 = Some (Inl e)"
  shows "is_syntax_error e"
proof (cases "ty = T_NOT")
  case True
  with it d[OF wf] show ?thesis unfolding conjunction_item_def
    by (auto split: option.splits sum.splits)
next
  case False
  show ?thesis
  proof (cases "ty = T_LPAREN")
    case True
    with it d[OF wf] show ?thesis unfolding conjunction_item_def
      by (auto split: option.splits sum.splits dest: expect_type_Inl)
  next
    case F2: False
    with False it wf show ?thesis unfolding conjunction_item_def
      by (auto dest: parse_condition_statement_Inl)
  qed
qed

lemma parse_error_all:
  "(\<forall>toks e. wf_tokens toks \<longrightarrow> parse_condition_disjunction cast n toks = Some (Inl e)
       \<longrightarrow> is_syntax_error e)
   \<and> (\<forall>conds toks e. wf_tokens toks \<longrightarrow> disjunction_loop cast n conds toks = Some (Inl e)
       \<longrightarrow> is_syntax_error e)
   \<and> (\<forall>toks e. wf_tokens toks \<longrightarrow> parse_condition_conjunction cast n toks = Some (Inl e)
       \<longrightarrow> is_syntax_error e)
   \<and> (\<forall>conds toks e. wf_tokens toks \<longrightarrow> conjunction_loop cast n conds toks = Some (Inl e)
       \<longrightarrow> is_syntax_error e)"
proof (induction n)
  case 0
  show ?case by (simp add: parser_zero)
next
  case (Suc n)
  note IH = Suc.IH
  have d: "is_syntax_error e"
    if "wf_tokens toks" "parse_condition_disjunction cast (Suc n) toks = Some (Inl e)" for toks e
    using that IH by (simp add: parser_wrap)
  have c: "is_syntax_error e"
    if "wf_tokens toks" "parse_condition_conjunction cast (Suc n) toks = Some (Inl e)" for toks e
    using that IH by (simp add: parser_wrap)
  have dl: "is_syntax_error e"
    if wf: "wf_tokens toks" and h: "disjunction_loop cast (Suc n) conds toks = Some (Inl e)"
    for conds toks e
  proof (cases "parse_condition_conjunction cast n toks")
    case None
    with h show ?thesis unfolding disjunction_loop_Suc by simp
  next
    case (Some r)
    show ?thesis
    proof (cases r)
      case (Inl e')
      with Some h have "e' = e" unfolding disjunction_loop_Suc by simp
      with Some Inl IH wf show ?thesis by blast
    next
      case (Inr p)
      obtain c1 toks1 where p: "p = (c1, toks1)" by (cases p)
      from Some Inr p wf have wf1: "wf_tokens toks1"
        by (auto dest!: conjunction_suffix intro: wf_tokens_suffix)
      show ?thesis
      proof (cases rule: accept_type_cases[of toks1 T_OR])
        case (hit v r)
        with wf1 have "wf_tokens r" by (simp add: wf_tokens_Cons)
        moreover from h Some Inr p hit
        have "disjunction_loop cast n (conds @ [c1]) r = Some (Inl e)"
          unfolding disjunction_loop_Suc by simp
        ultimately show ?thesis using IH by blast
      next
        case miss
        with h Some Inr p show ?thesis
          unfolding disjunction_loop_Suc by (simp add: finish_loop_snoc)
      qed
    qed
  qed
  have cl: "is_syntax_error e"
    if wf: "wf_tokens toks" and h: "conjunction_loop cast (Suc n) conds toks = Some (Inl e)"
    for conds toks e
  proof (cases "choice_type [T_NOT, T_LPAREN, T_QID, T_ID] toks")
    case (Inl e')
    with h show ?thesis unfolding conjunction_loop_Suc by (auto dest: choice_type_Inl)
  next
    case (Inr q)
    obtain ty token toks1 where q: "q = ((ty, token), toks1)" by (cases q) auto
    from choice_type_Inr[OF Inr[unfolded q]] have t: "toks = (ty, token) # toks1" by simp
    with wf have wf1: "wf_tokens toks1" by (simp add: wf_tokens_Cons)
    show ?thesis
    proof (cases "conjunction_item cast n ty token toks1")
      case None
      with h Inr q show ?thesis unfolding conjunction_loop_Suc by simp
    next
      case (Some r)
      show ?thesis
      proof (cases r)
        case (Inl e')
        with Some h Inr q have it: "conjunction_item cast n ty token toks1 = Some (Inl e)"
          unfolding conjunction_loop_Suc by simp
        show ?thesis
        proof (rule conjunction_item_Inl[OF _ wf1 it])
          fix toks e
          assume "wf_tokens toks" "parse_condition_disjunction cast n toks = Some (Inl e)"
          with IH show "is_syntax_error e" by blast
        qed
      next
        case r: (Inr p)
        obtain c1 toks4 where p: "p = (c1, toks4)" by (cases p)
        from Some r p wf1 have wf4: "wf_tokens toks4"
          by (auto dest!: item_suffix intro: wf_tokens_suffix)
        show ?thesis
        proof (cases rule: accept_type_cases[of toks4 T_AND])
          case (hit v r')
          with wf4 have "wf_tokens r'" by (simp add: wf_tokens_Cons)
          moreover from h Inr q Some r p hit
          have "conjunction_loop cast n (conds @ [c1]) r' = Some (Inl e)"
            unfolding conjunction_loop_Suc by simp
          ultimately show ?thesis using IH by blast
        next
          case miss
          with h Inr q Some r p show ?thesis
            unfolding conjunction_loop_Suc by (simp add: finish_loop_snoc)
        qed
      qed
    qed
  qed
  show ?case using d dl c cl by blast
qed

lemma where_loop_fuel:
  "4 * length toks + 1 \<le> n \<Longrightarrow> where_loop cast n conds toks \<noteq> None"
proof (induction n arbitrary: conds toks)
  case 0
  then show ?case by simp
next
  case (Suc n)
  show ?case
  proof (cases rule: accept_type_cases[of toks T_WHERE])
    case (hit v toks1)
    with Suc.prems have b: "4 * length toks1 + 4 \<le> n" by simp
    with parse_fuel_all[of n cast]
    obtain r where r: "parse_condition_disjunction cast n toks1 = Some r" by blast
    show ?thesis
    proof (cases r)
      case (Inl e)
      with hit r show ?thesis by simp
    next
      case (Inr p)
      obtain c toks2 where p: "p = (c, toks2)" by (cases p)
      from r Inr p have "length toks2 < length toks1"
        by (auto dest!: disjunction_suffix proper_suffix_length)
      with b have "4 * length toks2 + 1 \<le> n" by simp
      from Suc.IH[OF this] hit r Inr p show ?thesis by simp
    qed
  next
    case miss
    then show ?thesis by simp
  qed
qed

lemma where_loop_error:
  "wf_tokens toks \<Longrightarrow> where_loop cast n conds toks = Some (Inl e) \<Longrightarrow> is_syntax_error e"
proof (induction n arbitrary: conds toks)
  case 0
  then show ?case by simp
next
  case (Suc n)
  show ?case
  proof (cases rule: accept_type_cases[of toks T_WHERE])
    case (hit v toks1)
    with Suc.prems have wf1: "wf_tokens toks1" by (simp add: wf_tokens_Cons)
    show ?thesis
    proof (cases "parse_condition_disjunction cast n toks1")
      case None
      with hit Suc.prems show ?thesis by simp
    next
      case (Some r)
      show ?thesis
      proof (cases r)
        case (Inl e')
        with Some hit Suc.prems have "parse_condition_disjunction cast n toks1 = Some (Inl e)"
          by simp
        with parse_error_all[of cast n] wf1 show ?thesis by blast
      next
        case (Inr p)
        obtain c toks2 where p: "p = (c, toks2)" by (cases p)
        from Some Inr p wf1 have "wf_tokens toks2"
          by (auto dest!: disjunction_suffix intro: wf_tokens_suffix)
        moreover from Some Inr p hit Suc.prems
        have "where_loop cast n (conds @ [c]) toks2 = Some (Inl e)" by simp
        ultimately show ?thesis by (rule Suc.IH)
      qed
    qed
  next
    case miss
    with Suc.prems show ?thesis by simp
  qed
qed

lemma where_loop_wf:
  "wf_tokens toks \<Longrightarrow> where_loop cast n conds toks = Some (Inr (cs, rest)) \<Longrightarrow> wf_tokens rest"
proof (induction n arbitrary: conds toks)
  case 0
  then show ?case by simp
next
  case (Suc n)
  show ?case
  proof (cases rule: accept_type_cases[of toks T_WHERE])
    case (hit v toks1)
    with Suc.prems have wf1: "wf_tokens toks1" by (simp add: wf_tokens_Cons)
    from hit Suc.prems obtain c toks2 where
      d: "parse_condition_disjunction cast n toks1 = Some (Inr (c, toks2))"
      by (auto split: option.splits sum.splits)
    with wf1 have "wf_tokens toks2"
      by (auto dest!: disjunction_suffix intro: wf_tokens_suffix)
    moreover from d hit Suc.prems
    have "where_loop cast n (conds @ [c]) toks2 = Some (Inr (cs, rest))" by simp
    ultimately show ?thesis by (rule Suc.IH)
  next
    case miss
    with Suc.prems show ?thesis by simp
  qed
qed

lemma parse_select_where_total:
  "4 * length toks + 1 \<le> n \<Longrightarrow> parse_select_where cast n toks \<noteq> None"
  using where_loop_fuel[of toks n cast "[]"]
  by (auto simp: parse_select_where_def split: option.splits sum.splits)

lemma parse_select_where_error:
  "wf_tokens toks \<Longrightarrow> parse_select_where cast n toks = Some (Inl e) \<Longrightarrow> is_syntax_error e"
  using where_loop_error[of toks cast n "[]" e]
  by (auto simp: parse_select_where_def split: option.splits sum.splits)

text \<open>
  The fuel that \<open>parse_select\<close> hands to the where clauses is enough for every token
  sequence: the parser always returns, with a query or with an error.
\<close>

lemma parse_select_total: "parse_select cast toks \<noteq> None"
proof (cases "parse_select_projection toks")
  case (Inl e)
  then show ?thesis by (simp add: parse_select_def)
next
  case (Inr p)
  obtain projection toks1 where p: "p = (projection, toks1)" by (cases p)
  show ?thesis
  proof (cases "parse_select_from toks1")
    case (Inl e)
    with Inr p show ?thesis by (simp add: parse_select_def)
  next
    case fr: (Inr q)
    obtain relations toks2 where q: "q = (relations, toks2)" by (cases q)
    have "parse_select_where cast (4 * length toks2 + 5) toks2 \<noteq> None"
      by (rule parse_select_where_total) simp
    then obtain res where res: "parse_select_where cast (4 * length toks2 + 5) toks2 = Some res"
      by auto
    show ?thesis
    proof (cases res)
      case (Inl e)
      with Inr p fr q res show ?thesis by (simp add: parse_select_def)
    next
      case r: (Inr w)
      obtain cond toks3 where w: "w = (cond, toks3)" by (cases w)
      show ?thesis
        using Inr p fr q res r w
        by (cases "expect_type T_DOT toks3") (auto simp: parse_select_def)
    qed
  qed
qed

text \<open>
  Claim C7. A query whose projection is the wildcard and which has no from clause (the
  token after the star is not \<^verbatim>\<open>from\<close>) is rejected with a syntax error, whatever follows
  the star. With a from clause that names at least one relation the wildcard check never
  fires: the query fails only where its where clauses or its end fail to parse, and
  otherwise it is returned with the projection \<^verbatim>\<open>['*']\<close>.
\<close>

theorem wildcard_requires_from:
  assumes wf: "wf_tokens rest"
  shows "(rest = [] \<or> fst (hd rest) \<noteq> T_FROM \<longrightarrow>
           (\<exists>e. parse_select cast ((T_STAR, ''*'') # rest) = Some (Inl e) \<and> is_syntax_error e))
       \<and> parse_select cast ((T_STAR, ''*'') # (T_FROM, f) # (T_ID, r) # rest) =
           (case from_loop rest of (rels, toks2) \<Rightarrow>
              (case parse_select_where cast (4 * length toks2 + 5) toks2 of
                 None \<Rightarrow> None
               | Some (Inl e) \<Rightarrow> Some (Inl e)
               | Some (Inr (cond, toks3)) \<Rightarrow>
                   (case expect_type T_DOT toks3 of
                      Inl e \<Rightarrow> Some (Inl e)
                    | Inr _ \<Rightarrow> Some (Inr \<lparr>q_type = ''select'', q_projection = [''*''],
                                             q_relations = r # rels, q_condition = cond\<rparr>))))"
proof (intro conjI impI)
  assume nofrom: "rest = [] \<or> fst (hd rest) \<noteq> T_FROM"
  have pr: "parse_select_projection ((T_STAR, ''*'') # rest) = Inr ([''*''], rest)"
    by (simp add: parse_select_projection_def choice_type_def)
  have fr: "parse_select_from rest = Inr ([], rest)"
    using nofrom by (cases rest) (auto simp: parse_select_from_def accept_type_def)
  let ?w = "parse_select_where cast (4 * length rest + 5) rest"
  have "?w \<noteq> None" by (rule parse_select_where_total) simp
  then obtain res where res: "?w = Some res" by auto
  show "\<exists>e. parse_select cast ((T_STAR, ''*'') # rest) = Some (Inl e) \<and> is_syntax_error e"
  proof (cases res)
    case (Inl e)
    with res wf have "is_syntax_error e" by (auto dest: parse_select_where_error)
    with res Inl show ?thesis by (simp add: parse_select_def pr fr)
  next
    case (Inr p)
    obtain cond toks3 where p: "p = (cond, toks3)" by (cases p)
    show ?thesis
    proof (cases "expect_type T_DOT toks3")
      case (Inl e)
      then have "is_syntax_error e" by (rule expect_type_Inl)
      with res Inr p Inl show ?thesis by (simp add: parse_select_def pr fr)
    next
      case r: (Inr q)
      with res Inr p show ?thesis
        by (simp add: parse_select_def pr fr split: prod.splits)
    qed
  qed
next
  have pr: "parse_select_projection ((T_STAR, ''*'') # (T_FROM, f) # (T_ID, r) # rest)
              = Inr ([''*''], (T_FROM, f) # (T_ID, r) # rest)"
    by (simp add: parse_select_projection_def choice_type_def)
  obtain rels toks2 where fl: "from_loop rest = (rels, toks2)" by (cases "from_loop rest")
  have fr: "parse_select_from ((T_FROM, f) # (T_ID, r) # rest) = Inr (r # rels, toks2)"
    by (simp add: parse_select_from_def accept_type_def expect_type_def fl)
  show "parse_select cast ((T_STAR, ''*'') # (T_FROM, f) # (T_ID, r) # rest) =
           (case from_loop rest of (rels, toks2) \<Rightarrow>
              (case parse_select_where cast (4 * length toks2 + 5) toks2 of
                 None \<Rightarrow> None
               | Some (Inl e) \<Rightarrow> Some (Inl e)
               | Some (Inr (cond, toks3)) \<Rightarrow>
                   (case expect_type T_DOT toks3 of
                      Inl e \<Rightarrow> Some (Inl e)
                    | Inr _ \<Rightarrow> Some (Inr \<lparr>q_type = ''select'', q_projection = [''*''],
                                             q_relations = r # rels, q_condition = cond\<rparr>))))"
    by (simp add: parse_select_def pr fr fl split: option.splits sum.splits prod.splits)
qed

lemma parse_condition_statement_Cons2:
  "parse_condition_statement cast column ((T_OP, op0) # (ty, v) # rest) =
     (if ty \<in> set (literal_types (if op0 = ''='' then ''=='' else op0)) then
        (case literal_value cast ty v of
           Inl e \<Rightarrow> Inl e
         | Inr x \<Rightarrow> Inr (Comparison (if op0 = ''='' then ''=='' else op0) column x, rest))
      else Inl (TSQLSyntaxError (''unexpected: '' @ v)))"
  by (simp add: parse_condition_statement_unfold expect_type_def choice_type_def)

text \<open>
  The theorem at the queries \<^verbatim>\<open>select *\<close> and \<^verbatim>\<open>select * from item\<close>.
\<close>

theorem wildcard_requires_from_witness:
  "wf_tokens [(T_DOT, ''.'')]
   \<and> (\<exists>e. parse_select (\<lambda>_ _. VNone) [(T_STAR, ''*''), (T_DOT, ''.'')] = Some (Inl e)
          \<and> is_syntax_error e)
   \<and> parse_select (\<lambda>_ _. VNone) [(T_STAR, ''*''), (T_FROM, ''from''), (T_ID, ''item''),
                                         (T_DOT, ''.'')]
       = Some (Inr \<lparr>q_type = ''select'', q_projection = [''*''], q_relations = [''item''],
                      q_condition = None\<rparr>)"
proof -
  have wf: "wf_tokens [(T_DOT, ''.'')]" by (simp add: wf_tokens_def)
  note w = wildcard_requires_from[OF wf, of "\<lambda>_ _. VNone" "''from''" "''item''"]
  from w have a: "\<exists>e. parse_select (\<lambda>_ _. VNone) [(T_STAR, ''*''), (T_DOT, ''.'')] = Some (Inl e)
                    \<and> is_syntax_error e"
    by simp
  have wl: "parse_select_where (\<lambda>_ _. VNone) (4 * length [(T_DOT, ''.'')] + 5) [(T_DOT, ''.'')]
              = Some (Inr (None, [(T_DOT, ''.'')]))"
    by (simp add: parse_select_where_def accept_type_def eval_nat_numeral)
  from w have b: "parse_select (\<lambda>_ _. VNone) [(T_STAR, ''*''), (T_FROM, ''from''),
                     (T_ID, ''item''), (T_DOT, ''.'')]
       = Some (Inr \<lparr>q_type = ''select'', q_projection = [''*''], q_relations = [''item''],
                      q_condition = None\<rparr>)"
    unfolding from_loop.simps using wl by (simp add: expect_type_def)
  from wf a b show ?thesis by blast
qed

text \<open>
  Claim C8. In a comparison the literal after the operator must have a token type that
  the operator takes: a quoted string after \<^verbatim>\<open>~\<close> and \<^verbatim>\<open>!~\<close>, an integer or a date
  after \<^verbatim>\<open><\<close>, \<^verbatim>\<open><=\<close>, \<^verbatim>\<open>>\<close> and \<^verbatim>\<open>>=\<close>, an integer, a quoted string or a date
  after \<^verbatim>\<open>==\<close>, \<^verbatim>\<open>=\<close> and \<^verbatim>\<open>!=\<close>. A token of any other type is a syntax error;
  a token of a type the operator takes gives the comparison with the operator (\<^verbatim>\<open>=\<close>
  normalised to \<^verbatim>\<open>==\<close>), the column and the value of the literal.
\<close>

theorem parse_condition_statement_literal:
  assumes "op0 \<in> {''~'', ''!~'', ''<'', ''<='', ''>'', ''>='', ''=='', ''='', ''!=''}"
  shows "let op = (if op0 = ''='' then ''=='' else op0);
             allowed = (if op \<in> {''~'', ''!~''} then {T_DQSTRING, T_SQSTRING}
                        else if op \<in> {''<'', ''<='', ''>'', ''>=''}
                          then {T_INT, T_YYYYMMDD, T_DDMMYY, T_KWDATE}
                        else {T_INT, T_DQSTRING, T_SQSTRING, T_YYYYMMDD, T_DDMMYY, T_KWDATE});
             r = parse_condition_statement cast column ((T_OP, op0) # (ty, v) # rest)
         in (ty \<notin> allowed \<longrightarrow> (\<exists>e. r = Inl e \<and> is_syntax_error e))
          \<and> (ty \<in> allowed \<and> ty \<in> {T_DQSTRING, T_SQSTRING} \<longrightarrow>
                r = Inr (Comparison op column (VStr v), rest))
          \<and> (ty \<in> allowed \<and> ty \<in> {T_YYYYMMDD, T_DDMMYY, T_KWDATE} \<longrightarrow>
                r = Inr (Comparison op column (cast '':date'' v), rest))
          \<and> (ty \<in> allowed \<and> ty = T_INT \<and> is_int_literal v \<longrightarrow>
                (\<exists>i. py_int v = Inr i \<and> r = Inr (Comparison op column (VInt i), rest)))"
proof -
  define op where "op = (if op0 = ''='' then ''=='' else op0)"
  define allowed where "allowed = (if op \<in> {''~'', ''!~''} then {T_DQSTRING, T_SQSTRING}
                        else if op \<in> {''<'', ''<='', ''>'', ''>=''}
                          then {T_INT, T_YYYYMMDD, T_DDMMYY, T_KWDATE}
                        else {T_INT, T_DQSTRING, T_SQSTRING, T_YYYYMMDD, T_DDMMYY, T_KWDATE})"
  define r where "r = parse_condition_statement cast column ((T_OP, op0) # (ty, v) # rest)"
  have al: "allowed = set (literal_types op)"
    unfolding allowed_def literal_types_def date_types_def
    by (cases "op \<in> {''~'', ''!~''}"; cases "op \<in> {''<'', ''<='', ''>'', ''>=''}"; simp; blast)
  have r: "r = (if ty \<in> allowed then
                  (case literal_value cast ty v of
                     Inl e \<Rightarrow> Inl e
                   | Inr x \<Rightarrow> Inr (Comparison op column x, rest))
                else Inl (TSQLSyntaxError (''unexpected: '' @ v)))"
    unfolding r_def al op_def by (rule parse_condition_statement_Cons2)
  have 1: "ty \<notin> allowed \<longrightarrow> (\<exists>e. r = Inl e \<and> is_syntax_error e)"
    by (simp add: r)
  have 2: "ty \<in> allowed \<and> ty \<in> {T_DQSTRING, T_SQSTRING} \<longrightarrow>
                r = Inr (Comparison op column (VStr v), rest)"
    by (auto simp: r literal_value_def date_types_def)
  have 3: "ty \<in> allowed \<and> ty \<in> {T_YYYYMMDD, T_DDMMYY, T_KWDATE} \<longrightarrow>
                r = Inr (Comparison op column (cast '':date'' v), rest)"
    by (auto simp: r literal_value_def date_types_def)
  have 4: "ty \<in> allowed \<and> ty = T_INT \<and> is_int_literal v \<longrightarrow>
                (\<exists>i. py_int v = Inr i \<and> r = Inr (Comparison op column (VInt i), rest))"
  proof (intro impI, elim conjE)
    assume a: "ty \<in> allowed" "ty = T_INT" "is_int_literal v"
    from py_int_literal[OF a(3)] obtain i where i: "py_int v = Inr i" ..
    with a show "\<exists>i. py_int v = Inr i \<and> r = Inr (Comparison op column (VInt i), rest)"
      by (simp add: r literal_value_def)
  qed
  from 1 2 3 4 show ?thesis
    unfolding Let_def op_def[symmetric] allowed_def[symmetric] r_def[symmetric] by blast
qed

theorem parse_condition_statement_literal_witness:
  "''~'' \<in> {''~'', ''!~'', ''<'', ''<='', ''>'', ''>='', ''=='', ''='', ''!=''}
   \<and> parse_condition_statement (\<lambda>_ _. VNone) ''i-input''
         [(T_OP, ''~''), (T_DQSTRING, ''[Dd]og''), (T_DOT, ''.'')]
       = Inr (Comparison ''~'' ''i-input'' (VStr ''[Dd]og''), [(T_DOT, ''.'')])
   \<and> (\<exists>e. parse_condition_statement (\<lambda>_ _. VNone) ''i-input''
         [(T_OP, ''~''), (T_INT, ''10''), (T_DOT, ''.'')] = Inl e \<and> is_syntax_error e)"
proof -
  have m: "''~'' \<in> {''~'', ''!~'', ''<'', ''<='', ''>'', ''>='', ''=='', ''='', ''!=''}"
    by simp
  from parse_condition_statement_literal[OF m, of "\<lambda>_ _. VNone" "''i-input''" T_DQSTRING
      "''[Dd]og''" "[(T_DOT, ''.'')]"]
  have a: "parse_condition_statement (\<lambda>_ _. VNone) ''i-input''
         [(T_OP, ''~''), (T_DQSTRING, ''[Dd]og''), (T_DOT, ''.'')]
       = Inr (Comparison ''~'' ''i-input'' (VStr ''[Dd]og''), [(T_DOT, ''.'')])"
    by (simp add: Let_def)
  from parse_condition_statement_literal[OF m, of "\<lambda>_ _. VNone" "''i-input''" T_INT
      "''10''" "[(T_DOT, ''.'')]"]
  have b: "\<exists>e. parse_condition_statement (\<lambda>_ _. VNone) ''i-input''
         [(T_OP, ''~''), (T_INT, ''10''), (T_DOT, ''.'')] = Inl e \<and> is_syntax_error e"
    by (simp add: Let_def)
  from m a b show ?thesis by blast
qed

text \<open>
  Claim C3. The where clause \<^verbatim>\<open>i-id = 10 or i-id = 20 and i-input ~ "[Dd]og"\<close> and the
  where clause \<^verbatim>\<open>i-id = 10 or (i-id = 20 and i-input ~ "[Dd]og")\<close> give the same
  condition: a disjunction of the first comparison and of the conjunction of the other
  two. Conjunction binds tighter than disjunction.
\<close>

theorem conjunction_binds_tighter:
  "parse_select cast precedence_plain = parse_select cast precedence_parens
   \<and> parse_select cast precedence_plain =
       Some (Inr \<lparr>q_type = ''select'', q_projection = [''i-id''], q_relations = [''item''],
                  q_condition = Some (Boolean ''or''
                    [Comparison ''=='' ''i-id'' (VInt 10),
                     Boolean ''and'' [Comparison ''=='' ''i-id'' (VInt 20),
                                      Comparison ''~'' ''i-input'' (VStr ''[Dd]og'')]])\<rparr>)"
proof -
  have a: "parse_select cast precedence_plain =
       Some (Inr \<lparr>q_type = ''select'', q_projection = [''i-id''], q_relations = [''item''],
                  q_condition = Some (Boolean ''or''
                    [Comparison ''=='' ''i-id'' (VInt 10),
                     Boolean ''and'' [Comparison ''=='' ''i-id'' (VInt 20),
                                      Comparison ''~'' ''i-input'' (VStr ''[Dd]og'')]])\<rparr>)"
    unfolding precedence_plain_def by code_simp
  have b: "parse_select cast precedence_parens =
       Some (Inr \<lparr>q_type = ''select'', q_projection = [''i-id''], q_relations = [''item''],
                  q_condition = Some (Boolean ''or''
                    [Comparison ''=='' ''i-id'' (VInt 10),
                     Boolean ''and'' [Comparison ''=='' ''i-id'' (VInt 20),
                                      Comparison ''~'' ''i-input'' (VStr ''[Dd]og'')]])\<rparr>)"
    unfolding precedence_parens_def by code_simp
  from a b show ?thesis by simp
qed

section \<open>Verification: join planner\<close>

lemma find_Some_member: "find P xs = Some x \<Longrightarrow> x \<in> set xs \<and> P x"
  by (induction xs) (auto split: if_splits)

lemma length_filter_less_strict:
  "x \<in> set xs \<Longrightarrow> P x \<Longrightarrow> \<not> Q x \<Longrightarrow> (\<And>y. Q y \<Longrightarrow> P y) \<Longrightarrow>
   length (filter Q xs) < length (filter P xs)"
proof (induction xs)
  case Nil
  then show ?case by simp
next
  case (Cons a xs)
  have le: "length (filter Q xs) \<le> length (filter P xs)"
    using Cons.prems(4)
    by (induction xs) auto
  show ?case
  proof (cases "x = a")
    case True
    with Cons.prems le show ?thesis by auto
  next
    case False
    with Cons have "length (filter Q xs) < length (filter P xs)" by auto
    with Cons.prems(4) show ?thesis by auto
  qed
qed

lemma unselected_insert:
  assumes "(rel, keys) \<in> set keymap" "rel \<notin> set relset \<union> set pivots"
  shows "unselected keymap relset (List.insert rel pivots) < unselected keymap relset pivots"
  unfolding unselected_def
  by (rule length_filter_less_strict[OF assms(1)]) (use assms(2) in auto)

lemma pivot_loop_fuel:
  "unselected keymap relset pivots < n \<Longrightarrow>
   pivot_loop n keymap relset nodes edges pivots components \<noteq> None"
proof (induction n arbitrary: nodes edges pivots components)
  case 0
  then show ?case by simp
next
  case (Suc n)
  let ?P = "\<lambda>(rel, keys). rel \<notin> set relset \<union> set pivots \<and> length keys > 1
                                  \<and> bridges keys components"
  show ?case
  proof (cases "find ?P keymap")
    case None
    then show ?thesis by simp
  next
    case (Some p)
    obtain rel keys where p: "p = (rel, keys)" by (cases p)
    from find_Some_member[OF Some] p
    have m: "(rel, keys) \<in> set keymap" "rel \<notin> set relset \<union> set pivots" by auto
    from unselected_insert[OF m] Suc.prems
    have "unselected keymap relset (List.insert rel pivots) < n" by simp
    from Suc.IH[OF this] Some p show ?thesis by simp
  qed
qed

lemma unselected_le: "unselected keymap relset pivots \<le> length keymap"
  by (simp add: unselected_def)

lemma length_delete_less:
  "(rel, cols) \<in> set joinmap \<Longrightarrow> length (AList.delete rel joinmap) < length joinmap"
  unfolding AList.delete_eq
  by (induction joinmap) (auto simp: less_Suc_eq_le)

lemma join_order_loop_fuel:
  "length joinmap \<le> n \<Longrightarrow> join_order_loop n keymap joinmap joined_keys joins \<noteq> None"
proof (induction n arbitrary: joinmap joined_keys joins)
  case 0
  then show ?case by simp
next
  case (Suc n)
  show ?case
  proof (cases "find (joinable joins joined_keys) joinmap")
    case None
    then show ?thesis by simp
  next
    case (Some p)
    obtain rel cols where p: "p = (rel, cols)" by (cases p)
    from find_Some_member[OF Some] p have "(rel, cols) \<in> set joinmap" by simp
    from length_delete_less[OF this] Suc.prems
    have "length (AList.delete rel joinmap) \<le> n" by simp
    from Suc.IH[OF this] Some p show ?thesis
      by (simp split: option.splits)
  qed
qed

lemma pivot_relations_total: "pivot_relations set_order relset keymap \<noteq> None"
proof (cases "fold (graph_step keymap) (set_order relset) (Inr ([], []))")
  case (Inl e)
  then show ?thesis by (simp add: pivot_relations_def)
next
  case (Inr p)
  obtain nodes edges where p: "p = (nodes, edges)" by (cases p)
  have "unselected keymap relset [] < length keymap + 1"
    using unselected_le[of keymap relset "[]"] by simp
  from pivot_loop_fuel[OF this] Inr p show ?thesis by (simp add: pivot_relations_def)
qed

lemma set_set_update [simp]: "set (set_update s xs) = set s \<union> set xs"
  unfolding set_update_def by (induction xs arbitrary: s) auto


lemma map_fst_setdefault_append:
  "map fst (setdefault_append k v d) = (if k \<in> fst ` set d then map fst d else map fst d @ [k])"
proof (induction d)
  case Nil
  show ?case by simp
next
  case (Cons p d)
  obtain a b where p: "p = (a, b)" by (cases p)
  show ?case unfolding p using Cons by (cases "a = k") auto
qed

lemma distinct_setdefault_append:
  "distinct (map fst d) \<Longrightarrow> distinct (map fst (setdefault_append k v d))"
  by (simp add: map_fst_setdefault_append)

lemma set_fst_setdefault_append:
  "fst ` set (setdefault_append k v d) = insert k (fst ` set d)"
proof -
  have "set (map fst (setdefault_append k v d)) = insert k (set (map fst d))"
    unfolding map_fst_setdefault_append by auto
  then show ?thesis by simp
qed

lemma requested_step_ok: "joinmap_ok st \<Longrightarrow> joinmap_ok (requested_step q st)"
proof -
  obtain joinmap added relset where st: "st = (joinmap, added, relset)" by (cases st)
  obtain rel col where r: "rpartition CHR ''.'' q = (rel, col)" by (cases "rpartition CHR ''.'' q")
  assume "joinmap_ok st"
  then show ?thesis
    unfolding st joinmap_ok_def requested_step_def
    by (auto simp: r distinct_setdefault_append set_fst_setdefault_append)
qed

lemma fold_requested_step_ok: "joinmap_ok st \<Longrightarrow> joinmap_ok (fold requested_step qs st)"
proof (induction qs arbitrary: st)
  case Nil
  then show ?case by simp
next
  case (Cons q qs)
  from Cons.prems have "joinmap_ok (requested_step q st)" by (rule requested_step_ok)
  then have "joinmap_ok (fold requested_step qs (requested_step q st))" by (rule Cons.IH)
  then show ?case by simp
qed

lemma fold_add_key_fields:
  "distinct (map fst jm) \<Longrightarrow>
   distinct (map fst (fold (\<lambda>f jm. if P f then setdefault_append r (g f) jm else jm) fs jm))
   \<and> fst ` set (fold (\<lambda>f jm. if P f then setdefault_append r (g f) jm else jm) fs jm)
       \<subseteq> insert r (fst ` set jm)"
proof (induction fs arbitrary: jm)
  case Nil
  then show ?case by auto
next
  case (Cons f fs)
  show ?case
  proof (cases "P f")
    case True
    from Cons.prems have d: "distinct (map fst (setdefault_append r (g f) jm))"
      by (rule distinct_setdefault_append)
    from Cons.IH[OF d] True show ?thesis
      by (auto simp: set_fst_setdefault_append)
  next
    case False
    with Cons.IH[OF Cons.prems] show ?thesis by auto
  qed
qed

lemma fold_add_keys_Inl: "fold (add_keys db added) rs (Inl e) = Inl e"
  by (induction rs) (auto simp: add_keys_def)

lemma fold_add_keys_ok:
  "fold (add_keys db added) rs (Inr jm) = Inr jm' \<Longrightarrow> distinct (map fst jm) \<Longrightarrow>
   distinct (map fst jm') \<and> fst ` set jm' \<subseteq> set rs \<union> fst ` set jm
   \<and> (\<forall>r \<in> set rs. map_of (schema db) r \<noteq> None)"
proof (induction rs arbitrary: jm)
  case Nil
  then show ?case by auto
next
  case (Cons r rs)
  show ?case
  proof (cases "map_of (schema db) r")
    case None
    then have "add_keys db added r (Inr jm) = Inl (KeyError r)" by (simp add: add_keys_def)
    with Cons.prems(1) show ?thesis
      by (simp add: fold_add_keys_Inl)
  next
    case (Some fs)
    let ?jm = "fold (\<lambda>f jm. if is_key f \<and> qualify r (name f) \<notin> set added
                                  then setdefault_append r (name f) jm else jm) fs jm"
    from Some have "add_keys db added r (Inr jm) = Inr ?jm" by (simp add: add_keys_def)
    with Cons.prems(1) have f: "fold (add_keys db added) rs (Inr ?jm) = Inr jm'"
      by simp
    from fold_add_key_fields[OF Cons.prems(2), of "\<lambda>f. is_key f \<and> qualify r (name f) \<notin> set added" r name fs]
    have d: "distinct (map fst ?jm)" and s: "fst ` set ?jm \<subseteq> insert r (fst ` set jm)"
      by auto
    from Cons.IH[OF f d]
    have d': "distinct (map fst jm')"
      and s': "fst ` set jm' \<subseteq> set rs \<union> fst ` set ?jm"
      and m': "\<forall>r \<in> set rs. map_of (schema db) r \<noteq> None"
      by blast+
    from s' s have "fst ` set jm' \<subseteq> set (r # rs) \<union> fst ` set jm" by auto
    moreover from m' Some have "\<forall>r \<in> set (r # rs). map_of (schema db) r \<noteq> None" by simp
    ultimately show ?thesis using d' by blast
  qed
qed

lemma length_le_schema:
  assumes "distinct (map fst jm)" "\<forall>r \<in> fst ` set jm. map_of sch r \<noteq> None"
  shows "length jm \<le> length sch"
proof -
  have "fst ` set jm \<subseteq> fst ` set sch"
    using assms(2) by (auto simp: map_of_eq_None_iff)
  then have "card (fst ` set jm) \<le> card (fst ` set sch)"
    by (intro card_mono) auto
  also have "\<dots> \<le> card (set sch)" by (intro card_image_le) simp
  also have "\<dots> \<le> length sch" by (rule card_length)
  finally have "card (fst ` set jm) \<le> length sch" .
  moreover have "card (fst ` set jm) = length jm"
    using assms(1) distinct_card[of "map fst jm"] by simp
  ultimately show ?thesis by simp
qed

lemma length_make_keymap: "length (make_keymap db) \<le> length (schema db)"
proof -
  have "length (fold (\<lambda>(rel, fs) keymap. AList.update rel (f fs) keymap) sch km)
          \<le> length km + length sch" for f :: "fields \<Rightarrow> string list" and sch km
  proof (induction sch arbitrary: km)
    case Nil
    show ?case by simp
  next
    case (Cons p sch)
    obtain r fs where p: "p = (r, fs)" by (cases p)
    have "length (AList.update r (f fs) km) \<le> Suc (length km)"
      by (induction km) auto
    with Cons[of "AList.update r (f fs) km"] show ?case unfolding p by simp
  qed
  from this[of "\<lambda>fs. map name (filter is_key fs)" "schema db" "[]"]
  show ?thesis by (simp add: make_keymap_def)
qed

lemma plan_joins_total:
  assumes perm: "\<And>xs. set (set_order xs) = set xs"
  shows "plan_joins set_order projection condition_fields relations db \<noteq> None"
proof -
  obtain joinmap added relset where
    st: "fold requested_step (projection @ condition_fields) ([], [], remdups relations)
           = (joinmap, added, relset)"
    by (cases "fold requested_step (projection @ condition_fields) ([], [], remdups relations)")
  have "joinmap_ok ([], [], remdups relations)" by (simp add: joinmap_ok_def)
  from fold_requested_step_ok[OF this, of "projection @ condition_fields"]
  have ok: "distinct (map fst joinmap)" "fst ` set joinmap \<subseteq> set relset"
    unfolding st joinmap_ok_def by auto
  let ?keymap = "make_keymap db"
  obtain pr where pr: "pivot_relations set_order relset ?keymap = Some pr"
    using pivot_relations_total[of set_order relset ?keymap] by auto
  show ?thesis
  proof (cases pr)
    case (Inl e)
    with st pr show ?thesis by (simp add: plan_joins_def)
  next
    case (Inr pivots)
    let ?relset = "set_update relset pivots"
    show ?thesis
    proof (cases "fold (add_keys db added) (set_order ?relset) (Inr joinmap)")
      case (Inl e)
      with st pr Inr show ?thesis by (simp add: plan_joins_def)
    next
      case jm: (Inr joinmap')
      from fold_add_keys_ok[OF jm ok(1)]
      have d: "distinct (map fst joinmap')"
        and sub: "fst ` set joinmap' \<subseteq> set (set_order ?relset) \<union> fst ` set joinmap"
        and dom: "\<forall>r \<in> set (set_order ?relset). map_of (schema db) r \<noteq> None"
        by blast+
      from sub ok(2) have "fst ` set joinmap' \<subseteq> set (set_order ?relset)"
        unfolding perm by auto
      with dom have "\<forall>r \<in> fst ` set joinmap'. map_of (schema db) r \<noteq> None" by blast
      with d have "distinct (map fst joinmap')"
        "\<forall>r \<in> fst ` set joinmap'. map_of (schema db) r \<noteq> None" by blast+
      then have "length joinmap' \<le> length (schema db)" by (rule length_le_schema)
      from join_order_loop_fuel[OF this] st pr Inr jm show ?thesis
        by (simp add: plan_joins_def)
    qed
  qed
qed

lemma rpartition_qualified:
  assumes "rel \<noteq> []"
  shows "fst (rpartition CHR ''.'' (rel @ ''.'' @ col)) \<noteq> []"
proof -
  define d where "d = CHR ''.''"
  let ?P = "\<lambda>x. x \<noteq> d"
  have s: "rel @ ''.'' @ col = rel @ d # col" by (simp add: d_def)
  have dw: "dropWhile ?P (rev col @ d # rev rel) =
          (if \<forall>x \<in> set (rev col). ?P x then d # rev rel
           else dropWhile ?P (rev col) @ d # rev rel)"
    unfolding dropWhile_append by simp
  have "tl (dropWhile ?P (rev col @ d # rev rel)) \<noteq> []"
  proof (cases "\<forall>x \<in> set (rev col). ?P x")
    case True
    then show ?thesis unfolding dw using assms by simp
  next
    case False
    then have "dropWhile ?P (rev col) \<noteq> []" unfolding dropWhile_eq_Nil_conv by blast
    then obtain y ys where "dropWhile ?P (rev col) = y # ys"
      by (cases "dropWhile ?P (rev col)") auto
    moreover from False have "\<not> (\<forall>x \<in> set (rev col). x \<noteq> d)" .
    ultimately show ?thesis unfolding dw by (simp only: if_False append_Cons list.sel) simp
  qed
  moreover have "rpartition d (rel @ d # col) =
     (rev (tl (dropWhile ?P (rev col @ d # rev rel))), rev (takeWhile ?P (rev col @ d # rev rel)))"
    by (simp add: rpartition_def)
  ultimately show ?thesis unfolding s d_def[symmetric] by simp
qed

lemma resolve_qualified:
  "rel \<noteq> [] \<Longrightarrow> resolve schema_map (rel @ ''.'' @ col) = Inr (rel @ ''.'' @ col)"
proof -
  assume "rel \<noteq> []"
  then have n: "fst (rpartition CHR ''.'' (rel @ ''.'' @ col)) \<noteq> []"
    by (rule rpartition_qualified)
  obtain r c where rc: "rpartition CHR ''.'' (rel @ ''.'' @ col) = (r, c)"
    by (cases "rpartition CHR ''.'' (rel @ ''.'' @ col)")
  with n have "r \<noteq> []" by simp
  then show ?thesis unfolding resolve_def rc by simp
qed

lemma fold_requested_step_relset:
  "requested_ok st \<Longrightarrow>
   requested_ok (fold requested_step qs st)
   \<and> set qs \<subseteq> set (fst (snd (fold requested_step qs st)))
   \<and> set (fst (snd st)) \<subseteq> set (fst (snd (fold requested_step qs st)))"
proof (induction qs arbitrary: st)
  case Nil
  then show ?case by simp
next
  case (Cons q qs)
  obtain joinmap added relset where st: "st = (joinmap, added, relset)" by (cases st)
  obtain rel col where r: "rpartition CHR ''.'' q = (rel, col)" by (cases "rpartition CHR ''.'' q")
  have ok: "requested_ok (requested_step q st)"
    using Cons.prems unfolding st requested_ok_def requested_step_def by (auto simp: r)
  have q: "q \<in> set (fst (snd (requested_step q st)))"
    unfolding st requested_step_def by (auto simp: r)
  have m: "set (fst (snd st)) \<subseteq> set (fst (snd (requested_step q st)))"
    unfolding st requested_step_def by (auto simp: r)
  from Cons.IH[OF ok] q m show ?case by auto
qed

lemma fold_graph_step_Inl: "fold (graph_step keymap) rs (Inl e) = Inl e"
  by (induction rs) (auto simp: graph_step_def)

lemma fold_graph_step_KeyError:
  "\<exists>r \<in> set rs. map_of keymap r = None \<Longrightarrow>
   \<exists>r \<in> set rs. map_of keymap r = None \<and> fold (graph_step keymap) rs (Inr g) = Inl (KeyError r)"
proof (induction rs arbitrary: g)
  case Nil
  then show ?case by simp
next
  case (Cons a rs)
  obtain nodes edges where g: "g = (nodes, edges)" by (cases g)
  show ?case
  proof (cases "map_of keymap a")
    case None
    then have "graph_step keymap a (Inr g) = Inl (KeyError a)" by (simp add: graph_step_def g)
    with None show ?thesis by (simp add: fold_graph_step_Inl)
  next
    case (Some keys)
    then have s: "graph_step keymap a (Inr g) = Inr (set_update nodes keys, edges @ add_edges keys)"
      by (simp add: graph_step_def g)
    from Cons.prems Some have "\<exists>r \<in> set rs. map_of keymap r = None" by auto
    from Cons.IH[OF this, of "(set_update nodes keys, edges @ add_edges keys)"] s
    show ?thesis by auto
  qed
qed

lemma fst_set_update: "fst ` set (AList.update k v al) = insert k (fst ` set al)"
  using dom_update[of k v al] by (simp add: dom_map_of_conv_image_fst)

lemma fst_set_make_keymap: "fst ` set (make_keymap db) = fst ` set (schema db)"
proof -
  have "fst ` set (fold (\<lambda>(rel, fs) keymap. AList.update rel (f fs) keymap) sch km)
          = fst ` set km \<union> fst ` set sch" for f :: "fields \<Rightarrow> string list" and sch km
  proof (induction sch arbitrary: km)
    case Nil
    show ?case by simp
  next
    case (Cons p sch)
    obtain r fs where p: "p = (r, fs)" by (cases p)
    show ?case unfolding p by (simp add: Cons fst_set_update)
  qed
  from this[of "\<lambda>fs. map name (filter is_key fs)" "schema db" "[]"]
  show ?thesis by (simp add: make_keymap_def)
qed

lemma plan_joins_KeyError:
  assumes perm: "\<And>xs. set (set_order xs) = set xs"
    and q: "q \<in> set (projection @ condition_fields)"
    and un: "fst (rpartition CHR ''.'' q) \<notin> fst ` set (schema db)"
  shows "\<exists>r. r \<notin> fst ` set (schema db)
           \<and> plan_joins set_order projection condition_fields relations db = Some (Inl (KeyError r))"
proof -
  obtain joinmap added relset where
    st: "fold requested_step (projection @ condition_fields) ([], [], remdups relations)
           = (joinmap, added, relset)"
    by (cases "fold requested_step (projection @ condition_fields) ([], [], remdups relations)")
  have "requested_ok ([], [], remdups relations)" by (simp add: requested_ok_def)
  from fold_requested_step_relset[OF this, of "projection @ condition_fields"] q
  have "fst (rpartition CHR ''.'' q) \<in> set relset"
    unfolding st requested_ok_def by auto
  moreover have "map_of (make_keymap db) (fst (rpartition CHR ''.'' q)) = None"
    using un by (simp add: map_of_eq_None_iff fst_set_make_keymap)
  ultimately have "\<exists>r \<in> set (set_order relset). map_of (make_keymap db) r = None"
    unfolding perm by blast
  from fold_graph_step_KeyError[OF this, of "([], [])"]
  obtain r where r: "map_of (make_keymap db) r = None"
    "fold (graph_step (make_keymap db)) (set_order relset) (Inr ([], [])) = Inl (KeyError r)"
    by blast
  from r(1) have "r \<notin> fst ` set (schema db)"
    by (simp add: map_of_eq_None_iff fst_set_make_keymap)
  moreover from r(2) st
  have "plan_joins set_order projection condition_fields relations db = Some (Inl (KeyError r))"
    by (simp add: plan_joins_def pivot_relations_def)
  ultimately show ?thesis by blast
qed

text \<open>
  Claim C9. Both loops of the planner end within a number of rounds that the number of
  relations bounds. A round of the pivot search raises its error or adds a relation of
  the keymap that was not selected before, so the search returns within one round more
  than the keymap has relations. A round of the join ordering raises its error or removes
  an entry of the pending joinmap, so the ordering returns within as many rounds as the
  joinmap has entries. The keymap has at most as many entries as the schema has
  relations, and so has the joinmap that the planner orders: for every schema and every
  query \<open>plan_joins\<close> returns, a plan or an error, within these bounds. The order in
  which Python iterates a set is arbitrary.
\<close>

theorem planner_loops_bounded:
  assumes "\<forall>xs. set (set_order xs) = set xs"
  shows "(length keymap < n \<longrightarrow>
            pivot_loop n keymap relset nodes edges pivots components \<noteq> None)
       \<and> (length joinmap \<le> m \<longrightarrow>
            join_order_loop m keymap joinmap joined_keys joins \<noteq> None)
       \<and> length (make_keymap db) \<le> length (schema db)
       \<and> plan_joins set_order projection condition_fields relations db \<noteq> None"
proof (intro conjI impI)
  assume "length keymap < n"
  with unselected_le[of keymap relset pivots]
  have "unselected keymap relset pivots < n" by simp
  then show "pivot_loop n keymap relset nodes edges pivots components \<noteq> None"
    by (rule pivot_loop_fuel)
next
  assume "length joinmap \<le> m"
  then show "join_order_loop m keymap joinmap joined_keys joins \<noteq> None"
    by (rule join_order_loop_fuel)
next
  show "length (make_keymap db) \<le> length (schema db)" by (rule length_make_keymap)
next
  from assms have "\<And>xs. set (set_order xs) = set xs" by simp
  then show "plan_joins set_order projection condition_fields relations db \<noteq> None"
    by (rule plan_joins_total)
qed

text \<open>The theorem at a query over the three relations \<open>R1\<close>, \<open>R2\<close> and \<open>R3\<close>.\<close>

theorem planner_loops_bounded_witness:
  "plan_joins (\<lambda>xs. xs) [''R1.x'', ''R3.y''] [] [] three_relations \<noteq> None
   \<and> length (make_keymap three_relations) \<le> length (schema three_relations)"
proof -
  have "\<forall>xs. set ((\<lambda>xs. xs) xs) = set xs" by simp
  from planner_loops_bounded[OF this, where db = three_relations
      and projection = "[''R1.x'', ''R3.y'']" and condition_fields = "[]" and relations = "[]"]
  show ?thesis by blast
qed

text \<open>
  Claim C10. A column name with a relation qualifier is returned by the resolver as it
  is, also when the schema has no relation of that name: no "undefined column" error is
  raised. The planner then fails with a \<^verbatim>\<open>KeyError\<close> for a relation that the schema does
  not have, which is neither an engine error nor a syntax error; so does the making of
  the execution plan of a query that selects just this column.
\<close>

theorem qualified_name_unchecked:
  assumes "\<forall>xs. set (set_order xs) = set xs"
    and "rpartition CHR ''.'' q = (rel, col)"
    and "rel \<noteq> []"
    and "rel \<notin> fst ` set (schema db)"
    and "q \<in> set (projection @ condition_fields)"
  shows "resolve (make_schema_map db relations) q = Inr q
       \<and> (\<exists>r. r \<notin> fst ` set (schema db)
             \<and> plan_joins set_order projection condition_fields relations db
                 = Some (Inl (KeyError r)))
       \<and> (\<exists>r. r \<notin> fst ` set (schema db)
             \<and> make_execution_plan set_order [q] relations None db
                 = Some (Inl (KeyError r)))"
proof -
  from assms(1) have perm: "\<And>xs. set (set_order xs) = set xs" by simp
  have r: "resolve (make_schema_map db relations) q = Inr q"
    using assms(2,3) by (simp add: resolve_def)
  have un: "fst (rpartition CHR ''.'' q) \<notin> fst ` set (schema db)"
    using assms(2,4) by simp
  have p: "\<exists>r. r \<notin> fst ` set (schema db)
             \<and> plan_joins set_order projection condition_fields relations db
                 = Some (Inl (KeyError r))"
    using perm assms(5) un by (rule plan_joins_KeyError)
  have star: "q \<noteq> ''*''"
    using assms(2,3) by (auto simp: rpartition_def)
  have "q \<in> set ([q] @ [])" by simp
  with perm have "\<exists>r. r \<notin> fst ` set (schema db)
             \<and> plan_joins set_order [q] [] relations db = Some (Inl (KeyError r))"
    using un by (rule plan_joins_KeyError)
  then obtain r' where r': "r' \<notin> fst ` set (schema db)"
    "plan_joins set_order [q] [] relations db = Some (Inl (KeyError r'))"
    by blast
  have "make_execution_plan set_order [q] relations None db = Some (Inl (KeyError r'))"
    using star r r'(2) by (simp add: make_execution_plan_def)
  with r'(1) have m: "\<exists>r. r \<notin> fst ` set (schema db)
             \<and> make_execution_plan set_order [q] relations None db
                 = Some (Inl (KeyError r))"
    by blast
  from r p m show ?thesis by blast
qed

text \<open>
  The theorem at the name \<open>R9.x\<close> over the three relations \<open>R1\<close>, \<open>R2\<close> and \<open>R3\<close>: it
  is resolved to itself, and the plan of \<^verbatim>\<open>select R9.x\<close> is the \<^verbatim>\<open>KeyError\<close> of \<open>R9\<close>.
\<close>

theorem qualified_name_unchecked_witness:
  "resolve (make_schema_map three_relations []) ''R9.x'' = Inr ''R9.x''
   \<and> make_execution_plan (\<lambda>xs. xs) [''R9.x''] [] None three_relations
       = Some (Inl (KeyError ''R9''))"
proof -
  have perm: "\<forall>xs. set ((\<lambda>xs. xs) xs) = set xs" by simp
  have rp: "rpartition CHR ''.'' ''R9.x'' = (''R9'', ''x'')" by (simp add: rpartition_def)
  have ne: "''R9'' \<noteq> []" by simp
  have un: "''R9'' \<notin> fst ` set (schema three_relations)"
    by (simp add: three_relations_def)
  have mem: "''R9.x'' \<in> set ([''R9.x''] @ [])" by simp
  from qualified_name_unchecked[OF perm rp ne un mem, of "[]"]
  have a: "resolve (make_schema_map three_relations []) ''R9.x'' = Inr ''R9.x''"
    and "\<exists>r. r \<notin> fst ` set (schema three_relations)
             \<and> make_execution_plan (\<lambda>xs. xs) [''R9.x''] [] None three_relations
                 = Some (Inl (KeyError r))"
    by blast+
  then obtain r where r: "make_execution_plan (\<lambda>xs. xs) [''R9.x''] [] None three_relations
                 = Some (Inl (KeyError r))" by blast
  have "make_execution_plan (\<lambda>xs. xs) [''R9.x''] [] None three_relations
          = Some (Inl (KeyError ''R9''))"
    by code_simp
  with a show ?thesis by simp
qed

subsection \<open>Plans over three relations\<close>











lemma joinable_Nil [simp]: "joinable [] jk e"
  by (simp add: joinable_def)










lemma setdefault_append_not_Nil [simp]: "setdefault_append k v d \<noteq> []"
  by (cases d) (auto split: if_splits)



















end
